theory Spec2Isabelle
  imports Main "HOL-Library.AList"
begin

section \<open>JavaScript strings and characters\<close>

text \<open>
  Strings are HOL strings: lists of 8-bit characters, read as code units below 256.
  Only the ASCII letters carry case (\<open>toLowerCase\<close>, \<open>toUpperCase\<close> and the
  canonicalisation of the \<open>i\<close> flag act on \<open>A\<close>..\<open>Z\<close> and \<open>a\<close>..\<open>z\<close>).
\<close>

abbreviation BS :: char where "BS \<equiv> CHR 0x5C"

definition code :: "char \<Rightarrow> nat" where
  "code c = of_char c"

definition in_range :: "char \<Rightarrow> char \<times> char \<Rightarrow> bool" where
  "in_range c r = (code (fst r) \<le> code c \<and> code c \<le> code (snd r))"

definition toLowerChar :: "char \<Rightarrow> char" where
  "toLowerChar c = (if in_range c (CHR ''A'', CHR ''Z'') then char_of (code c + 32) else c)"

definition toUpperChar :: "char \<Rightarrow> char" where
  "toUpperChar c = (if in_range c (CHR ''a'', CHR ''z'') then char_of (code c - 32) else c)"

definition toLowerCase :: "string \<Rightarrow> string" where
  "toLowerCase s = map toLowerChar s"

section \<open>Regular expressions of the host language\<close>

text \<open>
  The program builds its patterns as text and hands them to the host's \<open>RegExp\<close>.
  The pattern language is modelled by a syntax tree, a backtracking matcher with capture
  groups that follows the host's priorities (greedy quantifiers, leftmost alternative
  first), and a parser from pattern text.
\<close>

datatype citem = CR char char | CNeg "(char \<times> char) list"

datatype regex =
    Empty
  | Chr char
  | Any
  | Cls bool "citem list"
  | Bol
  | Eol
  | Seq regex regex
  | Alt regex regex
  | Rep nat "nat option" bool regex
  | Grp nat regex
  | NonCap regex

type_synonym captures = "string option list"
type_synonym mstate = "string \<times> captures"

definition canon :: "bool \<Rightarrow> char \<Rightarrow> char" where
  "canon ic c = (if ic then toUpperChar c else c)"

definition variants :: "bool \<Rightarrow> char \<Rightarrow> char list" where
  "variants ic c = (if ic then [c, toUpperChar c, toLowerChar c] else [c])"

fun in_item :: "char \<Rightarrow> citem \<Rightarrow> bool" where
  "in_item c (CR lo hi) = in_range c (lo, hi)"
| "in_item c (CNeg rs) = (\<not> list_ex (in_range c) rs)"

definition in_class :: "bool \<Rightarrow> bool \<Rightarrow> citem list \<Rightarrow> char \<Rightarrow> bool" where
  "in_class ic neg items c =
     (list_ex (\<lambda>a. list_ex (in_item a) items) (variants ic c) \<noteq> neg)"

definition is_line_terminator :: "char \<Rightarrow> bool" where
  "is_line_terminator c = (code c = 10 \<or> code c = 13)"

fun groups_of :: "regex \<Rightarrow> nat list" where
  "groups_of (Seq a b) = groups_of a @ groups_of b"
| "groups_of (Alt a b) = groups_of a @ groups_of b"
| "groups_of (Rep mn mx g r) = groups_of r"
| "groups_of (Grp k r) = k # groups_of r"
| "groups_of (NonCap r) = groups_of r"
| "groups_of _ = []"

definition clear :: "nat list \<Rightarrow> mstate \<Rightarrow> mstate" where
  "clear ks x = (fst x, fold (\<lambda>k c. c[k := None]) ks (snd x))"

definition dec :: "nat option \<Rightarrow> nat option" where
  "dec mx = map_option (\<lambda>n. n - 1) mx"

text \<open>
  One more iteration of a quantified term once its minimum is met: an iteration that
  consumes nothing is abandoned, as the host's repeat matcher does, so the recursion is
  on the length of the remaining input.
\<close>

function star :: "(mstate \<Rightarrow> mstate list) \<Rightarrow> nat list \<Rightarrow> nat option \<Rightarrow> bool \<Rightarrow> mstate \<Rightarrow> mstate list" where
  "star f ks mx g x =
     (if mx = Some 0 then [x]
      else let iter = concat (map (star f ks (dec mx) g)
                        (filter (\<lambda>y. length (fst y) < length (fst x)) (f (clear ks x))))
           in if g then iter @ [x] else x # iter)"
  by pat_completeness auto
termination
  by (relation "measure (\<lambda>(f, ks, mx, g, x). length (fst x))") auto

declare star.simps [simp del]

primrec rep :: "(mstate \<Rightarrow> mstate list) \<Rightarrow> nat list \<Rightarrow> nat \<Rightarrow> nat option \<Rightarrow> bool \<Rightarrow> mstate \<Rightarrow> mstate list" where
  "rep f ks 0 mx g x = star f ks mx g x"
| "rep f ks (Suc n) mx g x =
     (if mx = Some 0 then [x]
      else concat (map (rep f ks n (dec mx) g) (f (clear ks x))))"

fun m :: "bool \<Rightarrow> nat \<Rightarrow> regex \<Rightarrow> mstate \<Rightarrow> mstate list" where
  "m ic n Empty x = [x]"
| "m ic n (Chr c) x =
     (case fst x of [] \<Rightarrow> []
      | d # s \<Rightarrow> if canon ic c = canon ic d then [(s, snd x)] else [])"
| "m ic n Any x =
     (case fst x of [] \<Rightarrow> []
      | d # s \<Rightarrow> if is_line_terminator d then [] else [(s, snd x)])"
| "m ic n (Cls neg items) x =
     (case fst x of [] \<Rightarrow> []
      | d # s \<Rightarrow> if in_class ic neg items d then [(s, snd x)] else [])"
| "m ic n Bol x = (if length (fst x) = n then [x] else [])"
| "m ic n Eol x = (if fst x = [] then [x] else [])"
| "m ic n (Seq a b) x = concat (map (m ic n b) (m ic n a x))"
| "m ic n (Alt a b) x = m ic n a x @ m ic n b x"
| "m ic n (Rep mn mx g r) x = rep (m ic n r) (groups_of r) mn mx g x"
| "m ic n (Grp k r) x =
     map (\<lambda>y. (fst y, (snd y)[k := Some (take (length (fst x) - length (fst y)) (fst x))]))
       (m ic n r x)"
| "m ic n (NonCap r) x = m ic n r x"


subsection \<open>Pattern text\<close>

datatype error = SyntaxError | TypeError | OutsideModel

text \<open>
  \<open>SyntaxError\<close> and \<open>TypeError\<close> are the host's exceptions. \<open>OutsideModel\<close> marks
  pattern syntax that the parser below does not cover (look-around, named groups,
  back-references, \<open>\b\<close>, and the numeric, hexadecimal, unicode and control escapes).
\<close>

datatype rtok = TAtom regex | TOpen bool | TClose | TBar | TQuant nat "nat option" bool

definition is_digit :: "char \<Rightarrow> bool" where
  "is_digit c = in_range c (CHR ''0'', CHR ''9'')"

definition digit_items :: "citem list" where
  "digit_items = [CR (CHR ''0'') (CHR ''9'')]"

definition word_items :: "citem list" where
  "word_items = [CR (CHR ''a'') (CHR ''z''), CR (CHR ''A'') (CHR ''Z''),
                 CR (CHR ''0'') (CHR ''9''), CR (CHR ''_'') (CHR ''_'')]"

definition space_items :: "citem list" where
  "space_items = [CR (CHR 0x09) (CHR 0x0D), CR (CHR 0x20) (CHR 0x20), CR (CHR 0xA0) (CHR 0xA0)]"

fun item_range :: "citem \<Rightarrow> (char \<times> char) list" where
  "item_range (CR lo hi) = [(lo, hi)]"
| "item_range (CNeg rs) = []"

definition negated :: "citem list \<Rightarrow> citem list" where
  "negated items = [CNeg (concat (map item_range items))]"

definition control_escape :: "char \<Rightarrow> char option" where
  "control_escape e =
     (if e = CHR ''t'' then Some (CHR 0x09)
      else if e = CHR ''n'' then Some (CHR 0x0A)
      else if e = CHR ''v'' then Some (CHR 0x0B)
      else if e = CHR ''f'' then Some (CHR 0x0C)
      else if e = CHR ''r'' then Some (CHR 0x0D)
      else None)"

definition class_escape :: "char \<Rightarrow> citem list option" where
  "class_escape e =
     (if e = CHR ''d'' then Some digit_items
      else if e = CHR ''D'' then Some (negated digit_items)
      else if e = CHR ''w'' then Some word_items
      else if e = CHR ''W'' then Some (negated word_items)
      else if e = CHR ''s'' then Some space_items
      else if e = CHR ''S'' then Some (negated space_items)
      else None)"

definition escape_atom :: "char \<Rightarrow> error + regex" where
  "escape_atom e =
     (case class_escape e of Some items \<Rightarrow> Inr (Cls False items)
      | None \<Rightarrow>
        (case control_escape e of Some c \<Rightarrow> Inr (Chr c)
         | None \<Rightarrow>
           if is_digit e \<or> e \<in> set ''bBcxuk'' then Inl OutsideModel
           else Inr (Chr e)))"

datatype catom = ADash | AChr char | ASet "citem list"

definition class_escape_atom :: "char \<Rightarrow> error + catom" where
  "class_escape_atom e =
     (case class_escape e of Some items \<Rightarrow> Inr (ASet items)
      | None \<Rightarrow>
        (case control_escape e of Some c \<Rightarrow> Inr (AChr c)
         | None \<Rightarrow>
           if e = CHR ''b'' then Inr (AChr (CHR 0x08))
           else if is_digit e \<or> e \<in> set ''cxuk'' then Inl OutsideModel
           else Inr (AChr e)))"

text \<open>The atoms of a character class up to its closing bracket, and the number of
  characters read, the bracket included.\<close>

fun class_atoms :: "string \<Rightarrow> error + (catom list \<times> nat)" where
  "class_atoms [] = Inl SyntaxError"
| "class_atoms (c # s) =
     (if c = CHR '']'' then Inr ([], 1)
      else if c = BS then
        (case s of [] \<Rightarrow> Inl SyntaxError
         | e # s' \<Rightarrow>
           (case class_escape_atom e of Inl err \<Rightarrow> Inl err
            | Inr a \<Rightarrow>
              (case class_atoms s' of Inl err \<Rightarrow> Inl err
               | Inr (as, k) \<Rightarrow> Inr (a # as, k + 2))))
      else
        (case class_atoms s of Inl err \<Rightarrow> Inl err
         | Inr (as, k) \<Rightarrow> Inr ((if c = CHR ''-'' then ADash else AChr c) # as, k + 1)))"

fun atom_items :: "catom \<Rightarrow> citem list" where
  "atom_items ADash = [CR (CHR ''-'') (CHR ''-'')]"
| "atom_items (AChr c) = [CR c c]"
| "atom_items (ASet items) = items"

fun atom_char :: "catom \<Rightarrow> char option" where
  "atom_char ADash = Some (CHR ''-'')"
| "atom_char (AChr c) = Some c"
| "atom_char (ASet items) = None"

fun class_ranges :: "catom list \<Rightarrow> error + citem list" where
  "class_ranges (a # ADash # b # rest) =
     (case (atom_char a, atom_char b) of
        (Some lo, Some hi) \<Rightarrow>
          if code hi < code lo then Inl SyntaxError
          else (case class_ranges rest of Inl err \<Rightarrow> Inl err
                | Inr items \<Rightarrow> Inr (CR lo hi # items))
      | _ \<Rightarrow>
          (case class_ranges rest of Inl err \<Rightarrow> Inl err
           | Inr items \<Rightarrow> Inr (atom_items a @ atom_items ADash @ atom_items b @ items)))"
| "class_ranges (a # rest) =
     (case class_ranges rest of Inl err \<Rightarrow> Inl err
      | Inr items \<Rightarrow> Inr (atom_items a @ items))"
| "class_ranges [] = Inr []"

definition nat_of_digits :: "string \<Rightarrow> nat" where
  "nat_of_digits ds = foldl (\<lambda>n d. 10 * n + (code d - 48)) 0 ds"

text \<open>The text after an opening brace, when it is \<open>n}\<close>, \<open>n,}\<close> or \<open>n,m}\<close>: the two bounds
  and the number of characters read. Any other text leaves the brace an ordinary character.\<close>

definition braces :: "string \<Rightarrow> (nat \<times> nat option \<times> nat) option" where
  "braces s =
     (let ds = takeWhile is_digit s; r = dropWhile is_digit s
      in if ds = [] then None
         else (case r of [] \<Rightarrow> None
               | c # r' \<Rightarrow>
                 if c = CHR ''}'' then Some (nat_of_digits ds, Some (nat_of_digits ds), length ds + 1)
                 else if c = CHR '','' then
                   (let es = takeWhile is_digit r'; r'' = dropWhile is_digit r'
                    in (case r'' of [] \<Rightarrow> None
                        | c' # _ \<Rightarrow>
                          if c' = CHR ''}''
                          then Some (nat_of_digits ds,
                                     if es = [] then None else Some (nat_of_digits es),
                                     length ds + length es + 2)
                          else None))
                 else None))"

definition cons_tok :: "rtok \<Rightarrow> error + rtok list \<Rightarrow> error + rtok list" where
  "cons_tok t r = (case r of Inl err \<Rightarrow> Inl err | Inr ts \<Rightarrow> Inr (t # ts))"

definition lazy_mark :: "string \<Rightarrow> bool" where
  "lazy_mark s = (case s of [] \<Rightarrow> False | c # _ \<Rightarrow> c = CHR ''?'')"

definition skip_lazy :: "string \<Rightarrow> string" where
  "skip_lazy s = (if lazy_mark s then tl s else s)"

function lex :: "string \<Rightarrow> error + rtok list" where
  "lex [] = Inr []"
| "lex (c # s) =
     (if c = BS then
        (case s of [] \<Rightarrow> Inl SyntaxError
         | e # s' \<Rightarrow>
           (case escape_atom e of Inl err \<Rightarrow> Inl err
            | Inr a \<Rightarrow> cons_tok (TAtom a) (lex s')))
      else if c = CHR ''['' then
        (let neg = (case s of [] \<Rightarrow> False | d # _ \<Rightarrow> d = CHR ''^'');
             body = (if neg then tl s else s)
         in (case class_atoms body of Inl err \<Rightarrow> Inl err
             | Inr (as, k) \<Rightarrow>
               (case class_ranges as of Inl err \<Rightarrow> Inl err
                | Inr items \<Rightarrow> cons_tok (TAtom (Cls neg items)) (lex (drop k body)))))
      else if c = CHR ''('' then
        (case s of
           [] \<Rightarrow> cons_tok (TOpen True) (lex s)
         | q # s' \<Rightarrow>
           if q = CHR ''?'' then
             (case s' of [] \<Rightarrow> Inl SyntaxError
              | k # s'' \<Rightarrow>
                if k = CHR '':'' then cons_tok (TOpen False) (lex s'')
                else if k \<in> set ''=!<'' then Inl OutsideModel
                else Inl SyntaxError)
           else cons_tok (TOpen True) (lex s))
      else if c = CHR '')'' then cons_tok TClose (lex s)
      else if c = CHR ''|'' then cons_tok TBar (lex s)
      else if c = CHR ''*'' then cons_tok (TQuant 0 None (\<not> lazy_mark s)) (lex (skip_lazy s))
      else if c = CHR ''+'' then cons_tok (TQuant 1 None (\<not> lazy_mark s)) (lex (skip_lazy s))
      else if c = CHR ''?'' then cons_tok (TQuant 0 (Some 1) (\<not> lazy_mark s)) (lex (skip_lazy s))
      else if c = CHR ''{'' then
        (case braces s of
           None \<Rightarrow> cons_tok (TAtom (Chr c)) (lex s)
         | Some (mn, mx, k) \<Rightarrow>
             cons_tok (TQuant mn mx (\<not> lazy_mark (drop k s))) (lex (skip_lazy (drop k s))))
      else if c = CHR ''^'' then cons_tok (TAtom Bol) (lex s)
      else if c = CHR ''$'' then cons_tok (TAtom Eol) (lex s)
      else if c = CHR ''.'' then cons_tok (TAtom Any) (lex s)
      else cons_tok (TAtom (Chr c)) (lex s))"
  by pat_completeness auto
termination
  by (relation "measure length") (auto simp: skip_lazy_def)

datatype gkind = Top | Capture nat | NonCapture

type_synonym frame = "gkind \<times> regex list \<times> regex list \<times> bool"

definition mk_seq :: "regex list \<Rightarrow> regex" where
  "mk_seq rs = foldl (\<lambda>acc r. Seq r acc) Empty rs"

definition mk_alt :: "regex \<Rightarrow> regex list \<Rightarrow> regex" where
  "mk_alt a as = foldl (\<lambda>acc r. Alt r acc) a as"

definition close_frame :: "frame \<Rightarrow> regex" where
  "close_frame f = (case f of (k, alts, cur, q) \<Rightarrow> mk_alt (mk_seq cur) alts)"

definition quantifiable :: "regex \<Rightarrow> bool" where
  "quantifiable a = (a \<noteq> Bol \<and> a \<noteq> Eol)"

definition out_of_order :: "nat \<Rightarrow> nat option \<Rightarrow> bool" where
  "out_of_order mn mx = (case mx of None \<Rightarrow> False | Some n \<Rightarrow> n < mn)"

fun wrap :: "gkind \<Rightarrow> regex \<Rightarrow> regex" where
  "wrap (Capture k) r = Grp k r"
| "wrap _ r = NonCap r"

fun pstep :: "rtok \<Rightarrow> nat \<times> frame list \<Rightarrow> error + (nat \<times> frame list)" where
  "pstep t (cnt, []) = Inl SyntaxError"
| "pstep (TAtom a) (cnt, (k, alts, cur, q) # st) =
     Inr (cnt, (k, alts, a # cur, quantifiable a) # st)"
| "pstep (TQuant mn mx g) (cnt, (k, alts, cur, q) # st) =
     (case cur of [] \<Rightarrow> Inl SyntaxError
      | a # cur' \<Rightarrow>
        if \<not> q \<or> out_of_order mn mx then Inl SyntaxError
        else Inr (cnt, (k, alts, Rep mn mx g a # cur', False) # st))"
| "pstep TBar (cnt, (k, alts, cur, q) # st) =
     Inr (cnt, (k, mk_seq cur # alts, [], False) # st)"
| "pstep (TOpen cap) (cnt, st) =
     (if cap then Inr (Suc cnt, (Capture (Suc cnt), [], [], False) # st)
      else Inr (cnt, (NonCapture, [], [], False) # st))"
| "pstep TClose (cnt, f # st) =
     (case st of [] \<Rightarrow> Inl SyntaxError
      | (k, alts, cur, q) # st' \<Rightarrow>
          Inr (cnt, (k, alts, wrap (fst f) (close_frame f) # cur, True) # st'))"

fun psteps :: "rtok list \<Rightarrow> nat \<times> frame list \<Rightarrow> error + (nat \<times> frame list)" where
  "psteps [] z = Inr z"
| "psteps (t # ts) z = (case pstep t z of Inl err \<Rightarrow> Inl err | Inr z' \<Rightarrow> psteps ts z')"

definition parse :: "string \<Rightarrow> error + (regex \<times> nat)" where
  "parse s =
     (case lex s of Inl err \<Rightarrow> Inl err
      | Inr ts \<Rightarrow>
        (case psteps ts (0, [(Top, [], [], False)]) of Inl err \<Rightarrow> Inl err
         | Inr (cnt, st) \<Rightarrow>
           (case st of [f] \<Rightarrow> Inr (close_frame f, cnt)
            | _ \<Rightarrow> Inl SyntaxError)))"

subsection \<open>RegExp objects\<close>

record regexp =
  source :: string
  ast :: regex
  ngroups :: nat
  ignoreCase :: bool

text \<open>\<open>RegExp(pattern, flags)\<close>; of the flags only \<open>i\<close> is used by the program. The
  \<open>source\<close> of the empty pattern is \<open>(?:)\<close>; otherwise the pattern text is kept as it
  is (the host may escape a slash or a line terminator in it, which re-parses to the same
  tree).\<close>

definition RegExp :: "string \<Rightarrow> bool \<Rightarrow> error + regexp" where
  "RegExp pattern i =
     (case parse pattern of Inl err \<Rightarrow> Inl err
      | Inr (r, cnt) \<Rightarrow>
          Inr \<lparr>source = (if pattern = [] then ''(?:)'' else pattern),
               ast = r, ngroups = cnt, ignoreCase = i\<rparr>)"

text \<open>\<open>input.match(regex)\<close> for a regex without the \<open>g\<close> flag: the first start position
  with a match, and there the first match in priority order. The result holds the whole
  match at index 0 and each group's capture (\<open>None\<close> for \<open>undefined\<close>) after it.\<close>

fun search :: "regexp \<Rightarrow> string \<Rightarrow> string \<Rightarrow> captures option" where
  "search r inp s =
     (case m (ignoreCase r) (length inp) (ast r) (s, replicate (ngroups r + 1) None) of
        y # _ \<Rightarrow> Some ((snd y)[0 := Some (take (length s - length (fst y)) s)])
      | [] \<Rightarrow> (case s of [] \<Rightarrow> None | _ # t \<Rightarrow> search r inp t))"

declare search.simps [simp del]

definition js_match :: "string \<Rightarrow> regexp \<Rightarrow> captures option" where
  "js_match input r = search r input input"


section \<open>Values and collaborators of the token parser\<close>

text \<open>
  A deserialized value is a number, \<open>NaN\<close>, a string or \<open>undefined\<close>. Numbers are
  unbounded integers: every number the parser computes from a capture is integral.
\<close>

datatype rawval = Num int | NaN | Str string | Undefined

type_synonym obj = "(string \<times> rawval) list"

text \<open>
  An object with string keys is an association list in the order in which the keys were
  first set, the order in which \<open>Object.keys\<close> lists them; assigning to a key that is
  already there keeps its place (\<^const>\<open>AList.update\<close>).
\<close>

definition get :: "obj \<Rightarrow> string \<Rightarrow> rawval option" where
  "get ob k = map_of ob k"

definition truthy :: "rawval option \<Rightarrow> bool" where
  "truthy v =
     (case v of Some (Num n) \<Rightarrow> n \<noteq> 0 | Some (Str s) \<Rightarrow> s \<noteq> [] | _ \<Rightarrow> False)"

definition truthy_object :: "obj \<Rightarrow> bool" where
  "truthy_object ob = True"

text \<open>Every object is truthy, the empty one included.\<close>

definition is_space :: "char \<Rightarrow> bool" where
  "is_space c = list_ex (in_item c) space_items"

definition hex_value :: "char \<Rightarrow> nat option" where
  "hex_value c =
     (if is_digit c then Some (code c - 48)
      else if in_range c (CHR ''a'', CHR ''f'') then Some (code c - 87)
      else if in_range c (CHR ''A'', CHR ''F'') then Some (code c - 55)
      else None)"

definition nat_of_hex :: "string \<Rightarrow> nat" where
  "nat_of_hex ds = foldl (\<lambda>n d. 16 * n + (case hex_value d of None \<Rightarrow> 0 | Some v \<Rightarrow> v)) 0 ds"

definition hex_prefix :: "string \<Rightarrow> bool" where
  "hex_prefix t = (take 2 t = ''0x'' \<or> take 2 t = ''0X'')"

text \<open>\<open>parseInt(s)\<close> with no radix: leading white space, a sign, then a hexadecimal
  numeral after \<open>0x\<close> or else the longest decimal prefix; \<open>NaN\<close> when there is no digit.
  The argument \<open>undefined\<close> is read as the text \<open>undefined\<close>, hence \<open>NaN\<close>.\<close>

definition parseInt :: "string option \<Rightarrow> rawval" where
  "parseInt a =
     (case a of None \<Rightarrow> NaN
      | Some s \<Rightarrow>
        (let t = dropWhile is_space s;
             neg = (t \<noteq> [] \<and> hd t = CHR ''-'');
             u = (if t \<noteq> [] \<and> (hd t = CHR ''-'' \<or> hd t = CHR ''+'') then tl t else t);
             sign = (if neg then - 1 else 1)
         in if hex_prefix u then
              (let ds = takeWhile (\<lambda>c. hex_value c \<noteq> None) (drop 2 u)
               in if ds = [] then NaN else Num (sign * int (nat_of_hex ds)))
            else
              (let ds = takeWhile is_digit u
               in if ds = [] then NaN else Num (sign * int (nat_of_digits ds)))))"

text \<open>
  The functions imported from \<open>./util\<close> and the locale are collaborators outside this
  file; the parser is modelled over any implementation of them.
\<close>

record util =
  untruncateYear :: "rawval \<Rightarrow> rawval"
  signedOffset :: "string option \<Rightarrow> string option \<Rightarrow> rawval"
  parseMillis :: "rawval \<Rightarrow> rawval"

record Locale =
  eras :: "string \<Rightarrow> bool \<Rightarrow> string list option"
  months :: "string \<Rightarrow> bool \<Rightarrow> bool \<Rightarrow> string list option"
  weekdays :: "string \<Rightarrow> bool \<Rightarrow> bool \<Rightarrow> string list option"
  meridiems :: "string list option"

text \<open>\<open>isUndefined\<close> of \<open>./util\<close> holds of a property that is missing or holds
  \<open>undefined\<close>.\<close>

definition isUndefined :: "rawval option \<Rightarrow> bool" where
  "isUndefined v = (v = None \<or> v = Some Undefined)"

datatype zone = FixedOffsetZone rawval | IANAZone rawval

section \<open>The token parser\<close>

record token =
  tliteral :: bool
  val :: string

record descriptor =
  regex :: string
  deser :: "captures \<Rightarrow> error + rawval"
  groups :: "nat option"
  dliteral :: bool

record match_unit = descriptor +
  token :: token

text \<open>
  The field \<open>regex\<close> of a descriptor holds the \<open>source\<close> of its RegExp object, the one
  property \<open>buildRegex\<close> reads. A deserializer receives the slice of captures it
  destructures; \<open>first\<close> is the pattern \<open>[s]\<close>, and \<open>nth_opt\<close> a later position.
\<close>

definition MISSING_FTP :: string where
  "MISSING_FTP = ''missing Intl.DateTimeFormat.formatToParts support''"

definition nth_opt :: "captures \<Rightarrow> nat \<Rightarrow> string option" where
  "nth_opt xs i = (if i < length xs then xs ! i else None)"

definition first :: "captures \<Rightarrow> string option" where
  "first xs = nth_opt xs 0"

definition intUnit :: "string \<Rightarrow> (rawval \<Rightarrow> rawval) \<Rightarrow> descriptor" where
  "intUnit re post =
     \<lparr>regex = re, deser = (\<lambda>xs. Inr (post (parseInt (first xs)))), groups = None,
      dliteral = False\<rparr>"

fun replace_first_dot :: "string \<Rightarrow> string \<Rightarrow> string" where
  "replace_first_dot r [] = []"
| "replace_first_dot r (c # s) = (if c = CHR ''.'' then r @ s else c # replace_first_dot r s)"

text \<open>\<open>s.replace(/\./, r)\<close>: the pattern has no \<open>g\<close> flag, so the first period only.\<close>

definition fixListRegex :: "string \<Rightarrow> string" where
  "fixListRegex s = replace_first_dot (BS # ''.?'') s"

definition stripInsensitivities :: "string \<Rightarrow> string" where
  "stripInsensitivities s = toLowerCase (replace_first_dot [] s)"

fun join :: "string \<Rightarrow> string list \<Rightarrow> string" where
  "join sep [] = []"
| "join sep [x] = x"
| "join sep (x # y # ys) = x @ sep @ join sep (y # ys)"

fun findIndex :: "('a \<Rightarrow> bool) \<Rightarrow> 'a list \<Rightarrow> int" where
  "findIndex p [] = - 1"
| "findIndex p (x # xs) =
     (if p x then 0 else (let r = findIndex p xs in if r < 0 then - 1 else r + 1))"

definition oneOf :: "string list option \<Rightarrow> int \<Rightarrow> error + descriptor option" where
  "oneOf strings startIndex =
     (case strings of None \<Rightarrow> Inr None
      | Some ss \<Rightarrow>
        (case RegExp (join ''|'' (map fixListRegex ss)) False of Inl err \<Rightarrow> Inl err
         | Inr r \<Rightarrow>
           Inr (Some
             \<lparr>regex = source r,
              deser = (\<lambda>xs.
                if ss = [] then Inr (Num (- 1 + startIndex))
                else (case first xs of None \<Rightarrow> Inl TypeError
                      | Some s \<Rightarrow>
                          Inr (Num (findIndex
                                 (\<lambda>i. stripInsensitivities s = stripInsensitivities i) ss
                               + startIndex)))),
              groups = None, dliteral = False\<rparr>)))"

text \<open>In the deserializer of \<open>oneOf\<close> the callback of \<open>findIndex\<close> calls \<open>replace\<close> on the
  captured text, which raises a TypeError on \<open>undefined\<close>; with no candidate the callback
  never runs.\<close>

definition offset :: "util \<Rightarrow> string \<Rightarrow> nat \<Rightarrow> descriptor" where
  "offset u re gs =
     \<lparr>regex = re, deser = (\<lambda>xs. Inr (signedOffset u (nth_opt xs 1) (nth_opt xs 2))),
      groups = Some gs, dliteral = False\<rparr>"

definition simple :: "string \<Rightarrow> descriptor" where
  "simple re =
     \<lparr>regex = re,
      deser = (\<lambda>xs. Inr (case first xs of None \<Rightarrow> Undefined | Some s \<Rightarrow> Str s)),
      groups = None, dliteral = False\<rparr>"

definition literal :: "token \<Rightarrow> error + descriptor option" where
  "literal t =
     (case RegExp (val t) False of Inl err \<Rightarrow> Inl err
      | Inr r \<Rightarrow>
          Inr (Some
            \<lparr>regex = source r,
             deser = (\<lambda>xs. Inr (case first xs of None \<Rightarrow> Undefined | Some s \<Rightarrow> Str s)),
             groups = None, dliteral = True\<rparr>))"


definition digits :: "string \<Rightarrow> string" where
  "digits q = BS # CHR ''d'' # q"

text \<open>\<open>digits q\<close> is the source text \<open>\d\<close> followed by \<open>q\<close>: the digit patterns of the
  switch below are written with it.\<close>

definition unitate :: "util \<Rightarrow> token \<Rightarrow> Locale \<Rightarrow> error + descriptor option" where
  "unitate u t loc =
     (if tliteral t then literal t
      else let v = val t in
        if v = ''G'' then oneOf (eras loc ''short'' False) 0
        else if v = ''GG'' then oneOf (eras loc ''long'' False) 0
        else if v = ''y'' then Inr (Some (intUnit (digits ''{1,6}'') id))
        else if v = ''yy'' then Inr (Some (intUnit (digits ''{2,4}'') (untruncateYear u)))
        else if v = ''yyyy'' then Inr (Some (intUnit (digits ''{4}'') id))
        else if v = ''yyyyy'' then Inr (Some (intUnit (digits ''{4,6}'') id))
        else if v = ''yyyyyy'' then Inr (Some (intUnit (digits ''{6}'') id))
        else if v = ''M'' then Inr (Some (intUnit (digits ''{1,2}'') id))
        else if v = ''MM'' then Inr (Some (intUnit (digits ''{2}'') id))
        else if v = ''MMM'' then oneOf (months loc ''short'' False False) 1
        else if v = ''MMMM'' then oneOf (months loc ''long'' False False) 1
        else if v = ''L'' then Inr (Some (intUnit (digits ''{1,2}'') id))
        else if v = ''LL'' then Inr (Some (intUnit (digits ''{2}'') id))
        else if v = ''LLL'' then oneOf (months loc ''short'' True False) 1
        else if v = ''LLLL'' then oneOf (months loc ''long'' True False) 1
        else if v = ''d'' then Inr (Some (intUnit (digits ''{1,2}'') id))
        else if v = ''dd'' then Inr (Some (intUnit (digits ''{2}'') id))
        else if v = ''o'' then Inr (Some (intUnit (digits ''{1,3}'') id))
        else if v = ''ooo'' then Inr (Some (intUnit (digits ''{3}'') id))
        else if v = ''HH'' then Inr (Some (intUnit (digits ''{2}'') id))
        else if v = ''H'' then Inr (Some (intUnit (digits ''{1,2}'') id))
        else if v = ''hh'' then Inr (Some (intUnit (digits ''{2}'') id))
        else if v = ''h'' then Inr (Some (intUnit (digits ''{1,2}'') id))
        else if v = ''mm'' then Inr (Some (intUnit (digits ''{2}'') id))
        else if v = ''m'' then Inr (Some (intUnit (digits ''{1,2}'') id))
        else if v = ''s'' then Inr (Some (intUnit (digits ''{1,2}'') id))
        else if v = ''ss'' then Inr (Some (intUnit (digits ''{2}'') id))
        else if v = ''S'' then Inr (Some (intUnit (digits ''{1,3}'') id))
        else if v = ''SSS'' then Inr (Some (intUnit (digits ''{3}'') id))
        else if v = ''u'' then Inr (Some (simple (digits ''{1,9}'')))
        else if v = ''a'' then oneOf (meridiems loc) 0
        else if v = ''kkkk'' then Inr (Some (intUnit (digits ''{4}'') id))
        else if v = ''kk'' then Inr (Some (intUnit (digits ''{2,4}'') (untruncateYear u)))
        else if v = ''W'' then Inr (Some (intUnit (digits ''{1,2}'') id))
        else if v = ''WW'' then Inr (Some (intUnit (digits ''{2}'') id))
        else if v = ''E'' \<or> v = ''c'' then Inr (Some (intUnit (digits []) id))
        else if v = ''EEE'' then oneOf (weekdays loc ''short'' False False) 1
        else if v = ''EEEE'' then oneOf (weekdays loc ''long'' False False) 1
        else if v = ''ccc'' then oneOf (weekdays loc ''short'' True False) 1
        else if v = ''cccc'' then oneOf (weekdays loc ''long'' True False) 1
        else if v = ''Z'' \<or> v = ''ZZ''
          then Inr (Some (offset u (''([+-]'' @ digits ''{1,2})(?::('' @ digits ''{2}))?'') 2))
        else if v = ''ZZZ''
          then Inr (Some (offset u (''([+-]'' @ digits ''{1,2})('' @ digits ''{2})?'') 2))
        else if v = ''z''
          then Inr (Some (simple (''[A-Za-z_]{1,256}'' @ BS # ''/[A-Za-z_]{1,256}'')))
        else literal t)"

datatype compiled = Descriptor match_unit | InvalidReason string token

text \<open>\<open>unitate(token, loc) || {invalidReason: MISSING_FTP}\<close>, then the token is attached.\<close>

definition unitForToken :: "util \<Rightarrow> token \<Rightarrow> Locale \<Rightarrow> error + compiled" where
  "unitForToken u t loc =
     (case unitate u t loc of Inl err \<Rightarrow> Inl err
      | Inr None \<Rightarrow> Inr (InvalidReason MISSING_FTP t)
      | Inr (Some d) \<Rightarrow> Inr (Descriptor (descriptor.extend d \<lparr>token = t\<rparr>)))"

definition buildRegex :: "match_unit list \<Rightarrow> string \<times> match_unit list" where
  "buildRegex units =
     (let re = foldl (\<lambda>f r. f @ ''('' @ r @ '')'') [] (map regex units)
      in (''^'' @ re @ ''$'', units))"

definition group_count :: "match_unit \<Rightarrow> nat" where
  "group_count h = (case groups h of None \<Rightarrow> 1 | Some g \<Rightarrow> if g = 0 then 1 else g + 1)"

definition slice :: "'a list \<Rightarrow> nat \<Rightarrow> nat \<Rightarrow> 'a list" where
  "slice xs b e = take (e - b) (drop b xs)"

text \<open>\<open>h.token.val[0]\<close> as a property key; indexing the empty string gives \<open>undefined\<close>.\<close>

definition key_of :: "token \<Rightarrow> string" where
  "key_of t = (case val t of [] \<Rightarrow> ''undefined'' | c # _ \<Rightarrow> [c])"

text \<open>The loop of \<open>match\<close> over the handlers, with its cursor \<open>matchIndex\<close> and the object
  \<open>all\<close>. Every handler carries a token, so the test \<open>h.token\<close> is true.\<close>

fun match_loop :: "match_unit list \<Rightarrow> nat \<Rightarrow> captures \<Rightarrow> obj \<Rightarrow> error + obj" where
  "match_loop [] matchIndex matches all = Inr all"
| "match_loop (h # hs) matchIndex matches all =
     (let gs = group_count h in
      if \<not> dliteral h then
        (case deser h (slice matches matchIndex (matchIndex + gs)) of Inl err \<Rightarrow> Inl err
         | Inr v \<Rightarrow>
             match_loop hs (matchIndex + gs) matches (AList.update (key_of (token h)) v all))
      else match_loop hs (matchIndex + gs) matches all)"

definition match :: "string \<Rightarrow> regexp \<Rightarrow> match_unit list \<Rightarrow> error + (captures option \<times> obj)" where
  "match input re handlers =
     (case js_match input re of
        Some matches \<Rightarrow>
          (case match_loop handlers 1 matches [] of Inl err \<Rightarrow> Inl err
           | Inr all \<Rightarrow> Inr (Some matches, all))
      | None \<Rightarrow> Inr (None, []))"

definition toField :: "string \<Rightarrow> string option" where
  "toField k =
     (if k = ''S'' then Some ''millisecond''
      else if k = ''s'' then Some ''second''
      else if k = ''m'' then Some ''minute''
      else if k = ''h'' \<or> k = ''H'' then Some ''hour''
      else if k = ''d'' then Some ''day''
      else if k = ''o'' then Some ''ordinal''
      else if k = ''L'' \<or> k = ''M'' then Some ''month''
      else if k = ''y'' then Some ''year''
      else if k = ''E'' \<or> k = ''c'' then Some ''weekday''
      else if k = ''W'' then Some ''weekNumber''
      else if k = ''k'' then Some ''weekYear''
      else None)"

definition zone_of :: "obj \<Rightarrow> zone option" where
  "zone_of matches =
     (if \<not> isUndefined (get matches ''Z'') then map_option FixedOffsetZone (get matches ''Z'')
      else if \<not> isUndefined (get matches ''z'') then map_option IANAZone (get matches ''z'')
      else None)"

text \<open>The 12-hour step. The value under \<open>h\<close> comes from \<open>intUnit\<close>, so it is a number or
  \<open>NaN\<close>, and every comparison with \<open>NaN\<close> is false.\<close>

definition adjust_hour :: "obj \<Rightarrow> obj" where
  "adjust_hour matches =
     (case get matches ''h'' of
        Some (Num h) \<Rightarrow>
          if h < 12 \<and> get matches ''a'' = Some (Num 1)
            then AList.update ''h'' (Num (h + 12)) matches
          else if h = 12 \<and> get matches ''a'' = Some (Num 0)
            then AList.update ''h'' (Num 0) matches
          else matches
      | _ \<Rightarrow> matches)"

definition negate :: "rawval \<Rightarrow> rawval" where
  "negate v = (case v of Num n \<Rightarrow> Num (- n) | _ \<Rightarrow> NaN)"

text \<open>The era step: \<open>matches.G === 0 && matches.y\<close>. The value under \<open>y\<close> comes from
  \<open>intUnit\<close> as well.\<close>

definition adjust_era :: "obj \<Rightarrow> obj" where
  "adjust_era matches =
     (if get matches ''G'' = Some (Num 0) \<and> truthy (get matches ''y'')
      then AList.update ''y'' (negate (the (get matches ''y''))) matches
      else matches)"

definition adjust_millis :: "util \<Rightarrow> obj \<Rightarrow> obj" where
  "adjust_millis u matches =
     (case get matches ''u'' of
        None \<Rightarrow> matches
      | Some v \<Rightarrow>
          if v = Undefined then matches else AList.update ''S'' (parseMillis u v) matches)"

definition to_fields :: "obj \<Rightarrow> obj" where
  "to_fields matches =
     foldl (\<lambda>r kv. case toField (fst kv) of Some f \<Rightarrow> AList.update f (snd kv) r | None \<Rightarrow> r)
       [] matches"

text \<open>\<open>dateTimeFromMatches\<close> returns the resolved fields and the zone, and it writes the
  12-hour, era and millisecond steps into the object it is given: the third component is
  that object after the call.\<close>

definition dateTimeFromMatches :: "util \<Rightarrow> obj \<Rightarrow> obj \<times> zone option \<times> obj" where
  "dateTimeFromMatches u matches =
     (let zone = zone_of matches;
          matches1 = adjust_hour matches;
          matches2 = adjust_era matches1;
          matches3 = adjust_millis u matches2
      in (to_fields matches3, zone, matches3))"

record explained =
  input :: string
  tokens :: "token list"
  regex_used :: regexp
  rawMatches :: "captures option"
  matches :: obj
  result :: "obj option"
  zone :: "zone option"

datatype explanation = Invalid string "token list" string | Explained explained

text \<open>The loop of \<open>explainFromTokens\<close> over the tokens: \<open>Inl reason\<close> is its early return.\<close>

fun compile_loop ::
  "util \<Rightarrow> Locale \<Rightarrow> token list \<Rightarrow> match_unit list \<Rightarrow> error + (string + match_unit list)" where
  "compile_loop u loc [] units = Inr (Inr units)"
| "compile_loop u loc (t # ts) units =
     (case unitForToken u t loc of Inl err \<Rightarrow> Inl err
      | Inr (InvalidReason reason _) \<Rightarrow> Inr (Inl reason)
      | Inr (Descriptor un) \<Rightarrow> compile_loop u loc ts (units @ [un]))"

text \<open>The format text is tokenized by \<open>Formatter.parseFormat\<close>, outside this file; the
  model starts from the token list. The field \<open>matches\<close> of the result is the raw field
  map as \<open>dateTimeFromMatches\<close> leaves it, since the same object is returned.\<close>

definition explainFromTokens :: "util \<Rightarrow> Locale \<Rightarrow> string \<Rightarrow> token list \<Rightarrow> error + explanation" where
  "explainFromTokens u loc inp toks =
     (case compile_loop u loc toks [] of Inl err \<Rightarrow> Inl err
      | Inr (Inl reason) \<Rightarrow> Inr (Invalid inp toks reason)
      | Inr (Inr units) \<Rightarrow>
        (case buildRegex units of (regexString, handlers) \<Rightarrow>
          (case RegExp regexString True of Inl err \<Rightarrow> Inl err
           | Inr re \<Rightarrow>
             (case match inp re handlers of Inl err \<Rightarrow> Inl err
              | Inr (raw, ms) \<Rightarrow>
                 (case (if truthy_object ms
                        then (case dateTimeFromMatches u ms of
                                (r, z, ms') \<Rightarrow> (Some r, z, ms'))
                        else (None, None, ms)) of
                    (res, zn, ms') \<Rightarrow>
                      Inr (Explained \<lparr>input = inp, tokens = toks, regex_used = re,
                             rawMatches = raw, matches = ms', result = res, zone = zn\<rparr>))))))"

definition parseFromTokens ::
  "util \<Rightarrow> Locale \<Rightarrow> string \<Rightarrow> token list \<Rightarrow> error + (obj option \<times> zone option \<times> string option)" where
  "parseFromTokens u loc inp toks =
     (case explainFromTokens u loc inp toks of Inl err \<Rightarrow> Inl err
      | Inr (Invalid _ _ reason) \<Rightarrow> Inr (None, None, Some reason)
      | Inr (Explained e) \<Rightarrow> Inr (result e, zone e, None))"


section \<open>Auxiliary definitions for the statements\<close>

text \<open>The two kinds of token the tokenizer produces: a symbolic run and a quoted literal.\<close>

definition sym :: "string \<Rightarrow> token" where
  "sym v = \<lparr>tliteral = False, val = v\<rparr>"

definition lit :: "string \<Rightarrow> token" where
  "lit v = \<lparr>tliteral = True, val = v\<rparr>"

text \<open>The record that \<open>explainFromTokens\<close> returns when it neither raises nor returns an
  invalid reason.\<close>

definition explained_of :: "error + explanation \<Rightarrow> explained option" where
  "explained_of r = (case r of Inr (Explained e) \<Rightarrow> Some e | _ \<Rightarrow> None)"

text \<open>The captures a handler is given: the cursor starts at 1 and advances by the group
  count of every handler before it.\<close>

definition cursor :: "match_unit list \<Rightarrow> nat" where
  "cursor pre = 1 + sum_list (map group_count pre)"

text \<open>The handlers and the pattern that \<open>explainFromTokens\<close> builds for a token list,
  for the examples (no handlers when a token does not compile).\<close>

definition units_of :: "util \<Rightarrow> Locale \<Rightarrow> token list \<Rightarrow> match_unit list" where
  "units_of u loc toks =
     (case compile_loop u loc toks [] of Inr (Inr units) \<Rightarrow> units | _ \<Rightarrow> [])"

definition pattern_of :: "match_unit list \<Rightarrow> error + regexp" where
  "pattern_of units = RegExp (fst (buildRegex units)) True"

text \<open>The trees of the two anchored offset patterns, \<open>^(([+-]\d{1,2})(?::(\d{2}))?)$\<close> and
  \<open>^(([+-]\d{1,2})(\d{2})?)$\<close>, as the parser reads them.\<close>

definition sign_items :: "citem list" where
  "sign_items = [CR (CHR ''+'') (CHR ''+''), CR (CHR ''-'') (CHR ''-'')]"

definition offset_colon_ast :: regex where
  "offset_colon_ast =
     Seq Bol
       (Seq (Grp 1
              (Seq (Grp 2
                     (Seq (Cls False sign_items)
                       (Seq (Rep 1 (Some 2) True (Cls False digit_items)) Empty)))
                (Seq (Rep 0 (Some 1) True
                       (NonCap
                         (Seq (Chr (CHR '':''))
                           (Seq (Grp 3 (Seq (Rep 2 (Some 2) True (Cls False digit_items)) Empty))
                             Empty))))
                  Empty)))
         (Seq Eol Empty))"

definition offset_bare_ast :: regex where
  "offset_bare_ast =
     Seq Bol
       (Seq (Grp 1
              (Seq (Grp 2
                     (Seq (Cls False sign_items)
                       (Seq (Rep 1 (Some 2) True (Cls False digit_items)) Empty)))
                (Seq (Rep 0 (Some 1) True
                       (Grp 3 (Seq (Rep 2 (Some 2) True (Cls False digit_items)) Empty)))
                  Empty)))
         (Seq Eol Empty))"

text \<open>The lengths, between two bounds, of the prefixes of a text that are digits only.\<close>

definition digit_runs :: "nat \<Rightarrow> nat \<Rightarrow> string \<Rightarrow> nat set" where
  "digit_runs mn mx s =
     {k. mn \<le> k \<and> k \<le> mx \<and> k \<le> length s \<and> list_all is_digit (take k s)}"

text \<open>The entry \<open>h\<close> of a raw field map holds \<open>w\<close> and no entry \<open>H\<close> comes after it.\<close>

definition hour_entry :: "obj \<Rightarrow> rawval \<Rightarrow> bool" where
  "hour_entry ob w =
     (\<exists>pre post. ob = pre @ (''h'', w) # post \<and> ''h'' \<notin> fst ` set pre
        \<and> ''h'' \<notin> fst ` set post \<and> ''H'' \<notin> fst ` set post)"

text \<open>The normal form of the specification's enumeration matcher, in its words: strip
  periods and lower-case.\<close>

definition strip_periods_spec :: "string \<Rightarrow> string" where
  "strip_periods_spec s = toLowerCase (filter (\<lambda>c. c \<noteq> CHR ''.'') s)"

text \<open>Modelled from the spec: \<open>signedOffset\<close> of \<open>./util\<close>, which is not in this file. The
  specification describes it as a sign/magnitude decoder from the hour text and the
  minute text, if any, to signed minutes (\<open>+05:30\<close> gives 330, \<open>-0800\<close> gives -480).\<close>

definition signedOffset_spec :: "string option \<Rightarrow> string option \<Rightarrow> rawval" where
  "signedOffset_spec h mi =
     (case parseInt h of
        Num hh \<Rightarrow>
          (let mm = (case parseInt mi of Num k \<Rightarrow> k | _ \<Rightarrow> 0);
               magnitude = 60 * \<bar>hh\<bar> + mm
           in Num (if map_option (take 1) h = Some ''-'' then - magnitude else magnitude))
      | _ \<Rightarrow> NaN)"

text \<open>Modelled from the spec: \<open>parseMillis\<close> of \<open>./util\<close>, which is not in this file. The
  specification describes it as padding or truncating the digits to three.\<close>

definition parseMillis_spec :: "rawval \<Rightarrow> rawval" where
  "parseMillis_spec v = (case v of Str s \<Rightarrow> parseInt (Some (take 3 (s @ ''000''))) | _ \<Rightarrow> NaN)"

text \<open>A concrete set of collaborators for the examples. The specification gives no rule
  for the two-digit-year expansion, which stays the identity here; no example reads it.\<close>

definition spec_util :: util where
  "spec_util =
     \<lparr>untruncateYear = id, signedOffset = signedOffset_spec, parseMillis = parseMillis_spec\<rparr>"

text \<open>Three locales for the examples: one that cannot supply any names, an English one,
  and one whose meridiem names carry two periods.\<close>

definition no_names :: Locale where
  "no_names =
     \<lparr>eras = (\<lambda>l d. None), months = (\<lambda>l s d. None), weekdays = (\<lambda>l s d. None),
      meridiems = None\<rparr>"

definition english :: Locale where
  "english =
     \<lparr>eras = (\<lambda>l d. Some (if l = ''short'' then [''BC'', ''AD'']
                              else [''Before Christ'', ''Anno Domini''])),
      months = (\<lambda>l s d. Some (if l = ''short''
                 then [''Jan.'', ''Feb'', ''Mar'', ''Apr'', ''May'', ''Jun'',
                       ''Jul'', ''Aug'', ''Sep'', ''Oct'', ''Nov'', ''Dec'']
                 else [''January'', ''February'', ''March'', ''April'', ''May'', ''June'',
                       ''July'', ''August'', ''September'', ''October'', ''November'',
                       ''December''])),
      weekdays = (\<lambda>l s d. Some (if l = ''short''
                 then [''Mon'', ''Tue'', ''Wed'', ''Thu'', ''Fri'', ''Sat'', ''Sun'']
                 else [''Monday'', ''Tuesday'', ''Wednesday'', ''Thursday'', ''Friday'',
                       ''Saturday'', ''Sunday''])),
      meridiems = Some [''AM'', ''PM'']\<rparr>"

definition dotted_meridiems :: Locale where
  "dotted_meridiems = english\<lparr>meridiems := Some [''a.m.'', ''p.m.'']\<rparr>"

section \<open>The matcher never moves backwards\<close>

text \<open>
  No result of the matcher has more input left than it started with, so the test in
  \<open>star\<close> drops exactly the iterations that consume nothing.
\<close>

lemma fst_clear [simp]: "fst (clear ks x) = fst x"
  by (simp add: clear_def)

lemma star_no_growth:
  assumes f: "\<And>x y. y \<in> set (f x) \<Longrightarrow> length (fst y) \<le> length (fst x)"
  shows "y \<in> set (star f ks mx g x) \<Longrightarrow> length (fst y) \<le> length (fst x)"
proof (induction f ks mx g x arbitrary: y rule: star.induct)
  case (1 f ks mx g x)
  show ?case
  proof (cases "mx = Some 0")
    case True
    with "1.prems" show ?thesis
      by (subst (asm) star.simps) simp
  next
    case False
    with "1.prems" consider "y = x"
      | z where "z \<in> set (f (clear ks x))" "length (fst z) < length (fst x)"
          "y \<in> set (star f ks (dec mx) g z)"
      by (subst (asm) star.simps) (auto simp: Let_def split: if_splits)
    then show ?thesis
    proof cases
      case 1
      then show ?thesis by simp
    next
      case 2
      from "1.IH" [OF False _ 2(3)] 2(1,2) have "length (fst y) \<le> length (fst z)"
        by simp
      with 2(2) show ?thesis by simp
    qed
  qed
qed

lemma rep_no_growth:
  assumes f: "\<And>x y. y \<in> set (f x) \<Longrightarrow> length (fst y) \<le> length (fst x)"
  shows "y \<in> set (rep f ks k mx g x) \<Longrightarrow> length (fst y) \<le> length (fst x)"
proof (induction k arbitrary: mx x)
  case 0
  then show ?case
    using star_no_growth [OF f] by simp
next
  case (Suc k)
  show ?case
  proof (cases "mx = Some 0")
    case True
    with Suc.prems show ?thesis by simp
  next
    case False
    with Suc.prems obtain z where z: "z \<in> set (f (clear ks x))"
      and y: "y \<in> set (rep f ks k (dec mx) g z)"
      by auto
    from Suc.IH [OF y] f [OF z] show ?thesis by simp
  qed
qed

lemma m_no_growth:
  "y \<in> set (m ic n r x) \<Longrightarrow> length (fst y) \<le> length (fst x)"
proof (induction r arbitrary: x y)
  case (Seq a b)
  then obtain z where "z \<in> set (m ic n a x)" "y \<in> set (m ic n b z)"
    by auto
  with Seq.IH show ?case
    by (meson le_trans)
next
  case (Rep mn mx g r)
  from Rep.prems have "y \<in> set (rep (m ic n r) (groups_of r) mn mx g x)"
    by simp
  then show ?case
    by (rule rep_no_growth [rotated]) (rule Rep.IH)
qed (auto split: list.splits if_splits)

section \<open>Lemmas about the field resolver\<close>

lemma get_update: "get (AList.update k v ob) k' = (if k' = k then Some v else get ob k')"
  by (simp add: get_def update_conv')

lemma find_append_last:
  "find P (xs @ [x]) = (case find P xs of Some y \<Rightarrow> Some y | None \<Rightarrow> if P x then Some x else None)"
  by (induction xs) auto

lemma get_foldl_fields:
  "get (foldl (\<lambda>r kv. case toField (fst kv) of Some f \<Rightarrow> AList.update f (snd kv) r | None \<Rightarrow> r) acc ob) f =
     (case find (\<lambda>kv. toField (fst kv) = Some f) (rev ob) of
        Some kv \<Rightarrow> Some (snd kv) | None \<Rightarrow> get acc f)"
proof (induction ob arbitrary: acc)
  case Nil
  then show ?case by simp
next
  case (Cons x ob)
  show ?case
    by (simp add: Cons.IH find_append_last get_update split: option.splits)
qed

lemma get_to_fields:
  "get (to_fields ob) f =
     map_option snd (find (\<lambda>kv. toField (fst kv) = Some f) (rev ob))"
proof -
  have "get [] f = None" by (simp add: get_def)
  then show ?thesis
    by (simp add: to_fields_def get_foldl_fields split: option.splits)
qed

lemma find_key_rev:
  "distinct (map fst ob) \<Longrightarrow> find (\<lambda>kv. fst kv = k) (rev ob) = map_option (Pair k) (map_of ob k)"
proof (induction ob)
  case Nil
  then show ?case by simp
next
  case (Cons x ob)
  then show ?case
    by (cases x) (force simp: find_append_last map_of_eq_None_iff split: option.splits)
qed

lemma toField_year: "toField k = Some ''year'' \<longleftrightarrow> k = ''y''"
  by (simp add: toField_def)

lemma toField_hour: "toField k = Some ''hour'' \<longleftrightarrow> k = ''h'' \<or> k = ''H''"
  by (simp add: toField_def)

lemma get_year:
  "distinct (map fst ob) \<Longrightarrow> get (to_fields ob) ''year'' = get ob ''y''"
proof -
  assume d: "distinct (map fst ob)"
  have "get (to_fields ob) ''year'' = map_option snd (find (\<lambda>kv. fst kv = ''y'') (rev ob))"
    by (simp add: get_to_fields toField_year)
  also have "\<dots> = map_option snd (map_option (Pair ''y'') (map_of ob ''y''))"
    by (simp only: find_key_rev [OF d])
  also have "\<dots> = get ob ''y''"
    by (cases "map_of ob ''y''") (simp_all add: get_def)
  finally show ?thesis .
qed

lemma distinct_adjust_hour: "distinct (map fst ob) \<Longrightarrow> distinct (map fst (adjust_hour ob))"
  by (simp add: adjust_hour_def distinct_update split: option.splits rawval.splits)

lemma distinct_adjust_era: "distinct (map fst ob) \<Longrightarrow> distinct (map fst (adjust_era ob))"
  by (simp add: adjust_era_def distinct_update)

lemma distinct_adjust_millis: "distinct (map fst ob) \<Longrightarrow> distinct (map fst (adjust_millis u ob))"
  by (simp add: adjust_millis_def distinct_update split: option.splits)

lemma get_adjust_hour: "k \<noteq> ''h'' \<Longrightarrow> get (adjust_hour ob) k = get ob k"
  by (simp add: adjust_hour_def get_update split: option.splits rawval.splits)

lemma get_adjust_millis: "k \<noteq> ''S'' \<Longrightarrow> get (adjust_millis u ob) k = get ob k"
  by (simp add: adjust_millis_def get_update split: option.splits)

lemma update_append_absent:
  "k \<notin> fst ` set xs \<Longrightarrow> AList.update k v (xs @ ys) = xs @ AList.update k v ys"
  by (induction xs) auto

lemma update_append_present:
  "k \<in> fst ` set xs \<Longrightarrow> AList.update k v (xs @ ys) = AList.update k v xs @ ys"
  by (induction xs) auto

lemma keys_update: "fst ` set (AList.update k v ob) = insert k (fst ` set ob)"
  using dom_update [of k v ob] by (simp add: dom_map_of_conv_image_fst)

lemma absent_key: "k \<notin> fst ` set xs \<Longrightarrow> map_of xs k = None"
  by (simp add: map_of_eq_None_iff)

lemma map_of_middle: "k \<notin> fst ` set xs \<Longrightarrow> map_of (xs @ (k, v) # ys) k = Some v"
  by (simp add: map_of_append map_add_def absent_key)

lemma hour_entry_update_h:
  assumes "hour_entry ob w"
  shows "hour_entry (AList.update ''h'' w' ob) w'"
proof -
  from assms obtain pre post where
    ob: "ob = pre @ (''h'', w) # post" and pre: "''h'' \<notin> fst ` set pre"
    and post: "''h'' \<notin> fst ` set post" "''H'' \<notin> fst ` set post"
    unfolding hour_entry_def by blast
  have "AList.update ''h'' w' ob = pre @ (''h'', w') # post"
    using pre by (simp add: ob update_append_absent)
  then show ?thesis
    unfolding hour_entry_def using pre post by blast
qed

lemma hour_entry_update_other:
  assumes "hour_entry ob w" and "k \<noteq> ''h''" and "k \<noteq> ''H''"
  shows "hour_entry (AList.update k v ob) w"
proof -
  from assms(1) obtain pre post where
    ob: "ob = pre @ (''h'', w) # post" and pre: "''h'' \<notin> fst ` set pre"
    and post: "''h'' \<notin> fst ` set post" "''H'' \<notin> fst ` set post"
    unfolding hour_entry_def by blast
  show ?thesis
  proof (cases "k \<in> fst ` set pre")
    case True
    then have "AList.update k v ob = AList.update k v pre @ (''h'', w) # post"
      by (simp add: ob update_append_present)
    moreover have "''h'' \<notin> fst ` set (AList.update k v pre)"
      using pre assms(2) by (simp add: keys_update)
    ultimately show ?thesis
      unfolding hour_entry_def using post by blast
  next
    case False
    then have "AList.update k v ob = pre @ (''h'', w) # AList.update k v post"
      using assms(2) by (simp add: ob update_append_absent)
    moreover have "''h'' \<notin> fst ` set (AList.update k v post)"
      "''H'' \<notin> fst ` set (AList.update k v post)"
      using post assms(2,3) by (simp_all add: keys_update)
    ultimately show ?thesis
      unfolding hour_entry_def using pre by blast
  qed
qed

lemma find_append_split:
  "find P (xs @ ys) = (case find P xs of Some y \<Rightarrow> Some y | None \<Rightarrow> find P ys)"
  by (induction xs) auto

lemma find_none: "(\<And>x. x \<in> set xs \<Longrightarrow> \<not> P x) \<Longrightarrow> find P xs = None"
  by (induction xs) auto

lemma hour_entry_to_fields:
  assumes "hour_entry ob w"
  shows "get (to_fields ob) ''hour'' = Some w"
proof -
  from assms obtain pre post where
    ob: "ob = pre @ (''h'', w) # post"
    and post: "''h'' \<notin> fst ` set post" "''H'' \<notin> fst ` set post"
    unfolding hour_entry_def by blast
  have "find (\<lambda>kv. toField (fst kv) = Some ''hour'') (rev post) = None"
    using post by (intro find_none) (force simp: toField_hour)
  then have "find (\<lambda>kv. toField (fst kv) = Some ''hour'') (rev ob) = Some (''h'', w)"
    by (simp add: ob find_append_split toField_hour)
  then show ?thesis
    by (simp add: get_to_fields)
qed

lemma hour_entry_get:
  assumes "hour_entry ob w"
  shows "get ob ''h'' = Some w"
proof -
  from assms obtain pre post where
    ob: "ob = pre @ (''h'', w) # post" and pre: "''h'' \<notin> fst ` set pre"
    unfolding hour_entry_def by blast
  show ?thesis
    by (simp only: get_def ob map_of_middle [OF pre])
qed

lemma hour_entryI:
  assumes "distinct (map fst ob)" and "get ob ''h'' = Some w"
    and "''H'' \<notin> fst ` set (dropWhile (\<lambda>kv. fst kv \<noteq> ''h'') ob)"
  shows "hour_entry ob w"
proof -
  let ?pre = "takeWhile (\<lambda>kv. fst kv \<noteq> ''h'') ob"
  let ?rest = "dropWhile (\<lambda>kv. fst kv \<noteq> ''h'') ob"
  from assms(2) have mem: "(''h'', w) \<in> set ob"
    by (simp add: get_def map_of_SomeD)
  then have "?rest \<noteq> []" by force
  then obtain kv post where rest: "?rest = kv # post" by (cases ?rest) auto
  then have k: "fst kv = ''h''"
    using hd_dropWhile [of "\<lambda>kv. fst kv \<noteq> ''h''" ob] by force
  have ob: "ob = ?pre @ kv # post"
    using rest takeWhile_dropWhile_id [of "\<lambda>kv. fst kv \<noteq> ''h''" ob] by simp
  have pre: "''h'' \<notin> fst ` set ?pre"
    by (auto dest: set_takeWhileD)
  have d: "distinct (map fst (?pre @ kv # post))"
    using assms(1) ob by simp
  then have post: "''h'' \<notin> fst ` set post"
    using k by auto
  have "map_of (?pre @ (''h'', snd kv) # post) ''h'' = Some (snd kv)"
    using pre by (rule map_of_middle)
  moreover have "(''h'', snd kv) = kv"
    using k by (cases kv) auto
  ultimately have "get ob ''h'' = Some (snd kv)"
    using ob by (simp add: get_def)
  with assms(2) have "kv = (''h'', w)"
    using k by (cases kv) auto
  moreover have "''H'' \<notin> fst ` set post"
    using assms(3) rest by auto
  ultimately show ?thesis
    unfolding hour_entry_def using ob pre post by blast
qed

lemma hour_entry_adjust_hour:
  assumes "hour_entry ob (Num h)" and "get ob ''a'' = Some (Num a)"
  shows "hour_entry (adjust_hour ob)
           (Num (if h < 12 \<and> a = 1 then h + 12 else if h = 12 \<and> a = 0 then 0 else h))"
  using assms hour_entry_get [OF assms(1)]
  by (auto simp: adjust_hour_def hour_entry_update_h)

lemma hour_entry_adjust_era: "hour_entry ob w \<Longrightarrow> hour_entry (adjust_era ob) w"
  by (simp add: adjust_era_def hour_entry_update_other)

lemma hour_entry_adjust_millis: "hour_entry ob w \<Longrightarrow> hour_entry (adjust_millis u ob) w"
  by (simp add: adjust_millis_def hour_entry_update_other split: option.splits)

section \<open>Lemmas about the matcher loop\<close>

lemma match_loop_distinct:
  "match_loop hs i ms all = Inr all' \<Longrightarrow> distinct (map fst all) \<Longrightarrow> distinct (map fst all')"
proof (induction hs arbitrary: i all)
  case Nil
  then show ?case by simp
next
  case (Cons h hs)
  then show ?case
    by (auto simp: Let_def distinct_update split: if_splits sum.splits)
qed

lemma match_loop_keys:
  "match_loop hs i ms all = Inr all' \<Longrightarrow>
     fst ` set all' = fst ` set all \<union> {key_of (token h) |h. h \<in> set hs \<and> \<not> dliteral h}"
proof (induction hs arbitrary: i all)
  case Nil
  then show ?case by simp
next
  case (Cons h hs)
  show ?case
  proof (cases "dliteral h")
    case True
    with Cons.prems have "match_loop hs (i + group_count h) ms all = Inr all'"
      by (simp add: Let_def)
    from Cons.IH [OF this] True show ?thesis by auto
  next
    case False
    with Cons.prems obtain v where
      v: "deser h (slice ms i (i + group_count h)) = Inr v"
      and rest: "match_loop hs (i + group_count h) ms (AList.update (key_of (token h)) v all) = Inr all'"
      by (auto simp: Let_def split: sum.splits)
    from Cons.IH [OF rest] False show ?thesis
      by (auto simp: keys_update)
  qed
qed

lemma match_loop_untouched:
  "match_loop hs i ms all = Inr all' \<Longrightarrow>
     (\<forall>h \<in> set hs. \<not> dliteral h \<longrightarrow> key_of (token h) \<noteq> k) \<Longrightarrow> get all' k = get all k"
proof (induction hs arbitrary: i all)
  case Nil
  then show ?case by simp
next
  case (Cons h hs)
  show ?case
  proof (cases "dliteral h")
    case True
    with Cons.prems have "match_loop hs (i + group_count h) ms all = Inr all'"
      by (simp add: Let_def)
    from Cons.IH [OF this] Cons.prems(2) show ?thesis by simp
  next
    case False
    with Cons.prems obtain v where
      rest: "match_loop hs (i + group_count h) ms (AList.update (key_of (token h)) v all) = Inr all'"
      by (auto simp: Let_def split: sum.splits)
    from Cons.IH [OF rest] Cons.prems(2) False show ?thesis
      by (auto simp: get_update)
  qed
qed

lemma match_loop_last_wins:
  assumes "match_loop (pre @ h # post) i ms all = Inr all'"
    and "\<not> dliteral h"
    and "\<forall>h' \<in> set post. \<not> dliteral h' \<longrightarrow> key_of (token h') \<noteq> key_of (token h)"
  shows "\<exists>v. deser h (slice ms (i + sum_list (map group_count pre))
                       (i + sum_list (map group_count pre) + group_count h)) = Inr v
            \<and> get all' (key_of (token h)) = Some v"
  using assms(1)
proof (induction pre arbitrary: i all)
  case Nil
  with assms(2) obtain v where
    v: "deser h (slice ms i (i + group_count h)) = Inr v"
    and rest: "match_loop post (i + group_count h) ms (AList.update (key_of (token h)) v all) = Inr all'"
    by (auto simp: Let_def split: sum.splits)
  from match_loop_untouched [OF rest assms(3)]
  have "get all' (key_of (token h)) = Some v"
    by (simp add: get_update)
  with v show ?case by simp
next
  case (Cons p pre)
  show ?case
  proof (cases "dliteral p")
    case True
    with Cons.prems have "match_loop (pre @ h # post) (i + group_count p) ms all = Inr all'"
      by (simp add: Let_def)
    from Cons.IH [OF this] show ?thesis
      by (simp add: add.assoc)
  next
    case False
    with Cons.prems obtain v where
      "match_loop (pre @ h # post) (i + group_count p) ms
         (AList.update (key_of (token p)) v all) = Inr all'"
      by (auto simp: Let_def split: sum.splits)
    from Cons.IH [OF this] show ?thesis
      by (simp add: add.assoc)
  qed
qed

section \<open>Lemmas about matching digit runs\<close>

lemma in_class_digit: "in_class ic False digit_items d = is_digit d"
proof -
  have lt: "of_char d < (256::nat)" by simp
  have up: "is_digit (toUpperChar d) = is_digit d"
    using lt by (auto simp: toUpperChar_def is_digit_def in_range_def code_def)
  have low: "is_digit (toLowerChar d) = is_digit d"
    using lt by (auto simp: toLowerChar_def is_digit_def in_range_def code_def)
  have "list_ex (in_item a) digit_items = is_digit a" for a
    by (simp add: digit_items_def is_digit_def)
  then show ?thesis
    using up low by (auto simp: in_class_def variants_def)
qed

lemma m_digit:
  "m ic n (Cls False digit_items) x =
     (case fst x of [] \<Rightarrow> [] | d # s \<Rightarrow> if is_digit d then [(s, snd x)] else [])"
  by (simp add: in_class_digit split: list.splits)

lemma clear_nil: "clear [] x = x"
  by (simp add: clear_def)

lemma digit_runs_Nil: "digit_runs mn mx [] = (if mn = 0 then {0} else {})"
  by (auto simp: digit_runs_def)

lemma digit_runs_zero: "digit_runs 0 0 s = {0}"
  by (auto simp: digit_runs_def)

lemma digit_runs_nondigit:
  "\<not> is_digit d \<Longrightarrow> digit_runs mn mx (d # s) = (if mn = 0 then {0} else {})"
proof -
  assume nd: "\<not> is_digit d"
  have "k = 0" if "k \<in> digit_runs mn mx (d # s)" for k
    using that nd by (cases k) (auto simp: digit_runs_def)
  then show ?thesis
    by (auto simp: digit_runs_def)
qed

lemma digit_runs_digit_Suc:
  "is_digit d \<Longrightarrow> digit_runs (Suc mn) (Suc mx) (d # s) = Suc ` digit_runs mn mx s"
proof (intro set_eqI iffI)
  fix k assume d: "is_digit d" and "k \<in> digit_runs (Suc mn) (Suc mx) (d # s)"
  then obtain j where "k = Suc j" "j \<in> digit_runs mn mx s"
    by (cases k) (auto simp: digit_runs_def)
  then show "k \<in> Suc ` digit_runs mn mx s" by blast
next
  fix k assume "is_digit d" and "k \<in> Suc ` digit_runs mn mx s"
  then show "k \<in> digit_runs (Suc mn) (Suc mx) (d # s)"
    by (auto simp: digit_runs_def)
qed

lemma digit_runs_digit_zero:
  "is_digit d \<Longrightarrow> digit_runs 0 (Suc mx) (d # s) = insert 0 (Suc ` digit_runs 0 mx s)"
proof (intro set_eqI iffI)
  fix k assume d: "is_digit d" and k: "k \<in> digit_runs 0 (Suc mx) (d # s)"
  show "k \<in> insert 0 (Suc ` digit_runs 0 mx s)"
  proof (cases k)
    case 0
    then show ?thesis by simp
  next
    case (Suc j)
    with k d have "j \<in> digit_runs 0 mx s" by (auto simp: digit_runs_def)
    with Suc show ?thesis by blast
  qed
next
  fix k assume "is_digit d" and "k \<in> insert 0 (Suc ` digit_runs 0 mx s)"
  then show "k \<in> digit_runs 0 (Suc mx) (d # s)"
    by (auto simp: digit_runs_def)
qed

lemma star_digit:
  assumes f: "\<And>x. f x = (case fst x of [] \<Rightarrow> [] | d # s \<Rightarrow> if is_digit d then [(s, snd x)] else [])"
  shows "set (star f [] (Some mx) g (s, c)) = (\<lambda>k. (drop k s, c)) ` digit_runs 0 mx s"
proof (induction mx arbitrary: s)
  case 0
  show ?case
    by (subst star.simps) (simp add: digit_runs_zero)
next
  case (Suc mx)
  show ?case
  proof (cases s)
    case Nil
    then show ?thesis
      by (subst star.simps) (simp add: f clear_nil digit_runs_Nil)
  next
    case (Cons d s')
    show ?thesis
    proof (cases "is_digit d")
      case False
      with Cons show ?thesis
        by (subst star.simps) (simp add: f clear_nil digit_runs_nondigit)
    next
      case True
      have "set (star f [] (Some (Suc mx)) g (d # s', c))
            = insert (d # s', c) (set (star f [] (Some mx) g (s', c)))"
        using True
        by (subst star.simps) (auto simp: f clear_nil dec_def Let_def)
      also have "\<dots> = (\<lambda>k. (drop k (d # s'), c)) ` insert 0 (Suc ` digit_runs 0 mx s')"
        by (simp add: Suc.IH image_image)
      finally show ?thesis
        using True Cons by (simp add: digit_runs_digit_zero)
    qed
  qed
qed

lemma rep_digit:
  assumes f: "\<And>x. f x = (case fst x of [] \<Rightarrow> [] | d # s \<Rightarrow> if is_digit d then [(s, snd x)] else [])"
  shows "mn \<le> mx \<Longrightarrow>
   set (rep f [] mn (Some mx) g (s, c)) = (\<lambda>k. (drop k s, c)) ` digit_runs mn mx s"
proof (induction mn arbitrary: mx s)
  case 0
  show ?case by (simp add: star_digit [OF f])
next
  case (Suc mn)
  then obtain mx' where mx: "mx = Suc mx'" and le: "mn \<le> mx'"
    by (cases mx) auto
  show ?case
  proof (cases s)
    case Nil
    have "f ([], c) = []" by (simp add: f)
    with Nil show ?thesis
      by (simp add: mx clear_nil digit_runs_Nil)
  next
    case (Cons d s')
    show ?thesis
    proof (cases "is_digit d")
      case False
      then have "f (d # s', c) = []" by (simp add: f)
      with Cons False show ?thesis
        by (simp add: mx clear_nil digit_runs_nondigit)
    next
      case True
      then have "f (d # s', c) = [(s', c)]" by (simp add: f)
      with Cons True show ?thesis
        by (simp add: mx clear_nil dec_def Suc.IH [OF le] digit_runs_digit_Suc image_image)
    qed
  qed
qed

lemma m_rep_digit:
  "mn \<le> mx \<Longrightarrow>
   set (m ic n (Rep mn (Some mx) g (Cls False digit_items)) (s, c))
     = (\<lambda>k. (drop k s, c)) ` digit_runs mn mx s"
  using rep_digit [of "m ic n (Cls False digit_items)" mn mx g s c, OF m_digit]
  by simp


lemma search_bol:
  "ast re = Seq Bol r \<Longrightarrow> length s < length inp \<Longrightarrow> search re inp s = None"
proof (induction s)
  case Nil
  then show ?case by (subst search.simps) simp
next
  case (Cons a s)
  then show ?case by (subst search.simps) simp
qed

lemma js_match_anchored:
  assumes "ast re = Seq Bol r"
  shows "js_match inp re =
     (case m (ignoreCase re) (length inp) r (inp, replicate (ngroups re + 1) None) of
        y # _ \<Rightarrow> Some ((snd y)[0 := Some (take (length inp - length (fst y)) inp)])
      | [] \<Rightarrow> None)"
proof (cases inp)
  case Nil
  then show ?thesis
    unfolding js_match_def by (subst search.simps) (simp add: assms split: list.splits)
next
  case (Cons a t)
  have "search re inp t = None"
    using assms by (rule search_bol) (simp add: Cons)
  then show ?thesis
    unfolding js_match_def by (subst search.simps) (simp add: assms Cons split: list.splits)
qed

lemma length_in_digit_runs:
  "length s \<in> digit_runs mn mx s \<longleftrightarrow> mn \<le> length s \<and> length s \<le> mx \<and> list_all is_digit s"
  by (simp add: digit_runs_def)

lemma m_seq_empty: "m ic n (Seq r Empty) x = m ic n r x"
proof -
  have "concat (map (\<lambda>y. [y]) xs) = xs" for xs :: "mstate list"
    by (induction xs) auto
  moreover have "m ic n Empty = (\<lambda>y. [y])"
    by (rule ext) simp
  ultimately show ?thesis by simp
qed

lemma image_filter_fst:
  assumes "\<And>y. fst (G y) = fst y"
  shows "{y \<in> G ` S. fst y = []} = G ` {y \<in> S. fst y = []}"
  using assms by auto

lemma set_m_seq_eol:
  "set (m ic n (Seq r (Seq Eol Empty)) x) = {y \<in> set (m ic n r x). fst y = []}"
  by (simp only: m.simps(7) [of ic n r] m_seq_empty) auto

lemma set_m_grp:
  "set (m ic n (Grp k r) x)
     = (\<lambda>y. (fst y, (snd y)[k := Some (take (length (fst x) - length (fst y)) (fst x))]))
         ` set (m ic n r x)"
  by simp

lemma digit_group_set:
  assumes "mn \<le> mx"
  shows "set (m ic n (Seq (Grp 1 (Seq (Rep mn (Some mx) g (Cls False digit_items)) Empty))
                       (Seq Eol Empty)) (inp, [None, None]))
    = (if mn \<le> length inp \<and> length inp \<le> mx \<and> list_all is_digit inp
       then {([], [None, Some inp])} else {})"
proof -
  let ?L = "m ic n (Rep mn (Some mx) g (Cls False digit_items)) (inp, [None, None])"
  let ?G = "\<lambda>y::mstate. (fst y, (snd y)[1 := Some (take (length inp - length (fst y)) inp)])"
  have L: "set ?L = (\<lambda>k. (drop k inp, [None, None])) ` digit_runs mn mx inp"
    using assms by (rule m_rep_digit)
  have ends: "{y \<in> set ?L. fst y = []}
        = (if length inp \<in> digit_runs mn mx inp then {([], [None, None])} else {})"
    unfolding L
    by (auto simp: digit_runs_def intro: rev_image_eqI [where x = "length inp"])
  have "set (m ic n (Seq (Grp 1 (Seq (Rep mn (Some mx) g (Cls False digit_items)) Empty))
                       (Seq Eol Empty)) (inp, [None, None]))
        = {y \<in> ?G ` set ?L. fst y = []}"
    by (simp only: set_m_seq_eol set_m_grp m_seq_empty fst_conv)
  also have "\<dots> = ?G ` {y \<in> set ?L. fst y = []}"
    by (rule image_filter_fst) simp
  also have "\<dots> = (if length inp \<in> digit_runs mn mx inp then {([], [None, Some inp])} else {})"
    by (simp only: ends) simp
  finally show ?thesis
    by (simp add: length_in_digit_runs)
qed

lemma singleton_set_list: "set xs = {z} \<Longrightarrow> \<exists>ys. xs = z # ys"
  by (cases xs) auto

lemma js_match_digit_group:
  assumes "ast re = Seq Bol (Seq (Grp 1 (Seq (Rep mn (Some mx) g (Cls False digit_items)) Empty))
                       (Seq Eol Empty))"
    and "ngroups re = 1" and "mn \<le> mx"
  shows "js_match inp re =
     (if mn \<le> length inp \<and> length inp \<le> mx \<and> list_all is_digit inp
      then Some [Some inp, Some inp] else None)"
proof (cases "mn \<le> length inp \<and> length inp \<le> mx \<and> list_all is_digit inp")
  case True
  then obtain ys where
    "m (ignoreCase re) (length inp)
       (Seq (Grp 1 (Seq (Rep mn (Some mx) g (Cls False digit_items)) Empty)) (Seq Eol Empty))
       (inp, [None, None]) = ([], [None, Some inp]) # ys"
    using digit_group_set [OF assms(3), of "ignoreCase re" "length inp" g inp]
      singleton_set_list by (metis (no_types, lifting))
  with True show ?thesis
    by (simp only: js_match_anchored [OF assms(1)] assms(2))
       (simp del: m.simps add: numeral_2_eq_2)
next
  case False
  then have
    "m (ignoreCase re) (length inp)
       (Seq (Grp 1 (Seq (Rep mn (Some mx) g (Cls False digit_items)) Empty)) (Seq Eol Empty))
       (inp, [None, None]) = []"
    using digit_group_set [OF assms(3), of "ignoreCase re" "length inp" g inp]
    by (simp only: if_False set_empty split: if_splits)
  with False show ?thesis
    by (simp only: js_match_anchored [OF assms(1)] assms(2))
       (simp del: m.simps add: numeral_2_eq_2)
qed

section \<open>Lemmas about formats of one token\<close>

lemma explain_single:
  assumes "unitForToken u t loc = Inr (Descriptor un)"
    and "RegExp (''^('' @ regex un @ '')$'') True = Inr re"
  shows "explainFromTokens u loc inp [t] =
     (case match inp re [un] of Inl err \<Rightarrow> Inl err
      | Inr (raw, ms) \<Rightarrow>
          Inr (Explained \<lparr>input = inp, tokens = [t], regex_used = re, rawMatches = raw,
                 matches = snd (snd (dateTimeFromMatches u ms)),
                 result = Some (fst (dateTimeFromMatches u ms)),
                 zone = fst (snd (dateTimeFromMatches u ms))\<rparr>))"
  using assms
  by (simp add: explainFromTokens_def buildRegex_def truthy_object_def
      split: sum.splits prod.splits)

lemma unit_y:
  "unitForToken u (sym ''y'') loc
     = Inr (Descriptor (descriptor.extend (intUnit (digits ''{1,6}'') id) \<lparr>token = sym ''y''\<rparr>))"
  by (simp add: unitForToken_def unitate_def sym_def)

lemma unit_u:
  "unitForToken u (sym ''u'') loc
     = Inr (Descriptor (descriptor.extend (simple (digits ''{1,9}'')) \<lparr>token = sym ''u''\<rparr>))"
  by (simp add: unitForToken_def unitate_def sym_def)

lemma regexp_digit_group_6:
  "RegExp (''^('' @ digits ''{1,6}'' @ '')$'') True =
     Inr \<lparr>source = ''^('' @ digits ''{1,6}'' @ '')$'',
          ast = Seq Bol (Seq (Grp 1 (Seq (Rep 1 (Some 6) True (Cls False digit_items)) Empty))
                  (Seq Eol Empty)),
          ngroups = 1, ignoreCase = True\<rparr>"
  by code_simp

lemma regexp_digit_group_9:
  "RegExp (''^('' @ digits ''{1,9}'' @ '')$'') True =
     Inr \<lparr>source = ''^('' @ digits ''{1,9}'' @ '')$'',
          ast = Seq Bol (Seq (Grp 1 (Seq (Rep 1 (Some 9) True (Cls False digit_items)) Empty))
                  (Seq Eol Empty)),
          ngroups = 1, ignoreCase = True\<rparr>"
  by code_simp

lemma regex_extend [simp]: "regex (descriptor.extend d x) = regex d"
  by (simp add: descriptor.defs)

lemma regex_intUnit [simp]: "regex (intUnit re post) = re"
  by (simp add: intUnit_def)

lemma regex_simple [simp]: "regex (simple re) = re"
  by (simp add: simple_def)

lemma resolve_nothing: "dateTimeFromMatches u [] = ([], None, [])"
  by (simp add: dateTimeFromMatches_def zone_of_def adjust_hour_def adjust_era_def
      adjust_millis_def to_fields_def get_def isUndefined_def truthy_def)

lemma resolve_year:
  "dateTimeFromMatches u [(''y'', v)] = ([(''year'', v)], None, [(''y'', v)])"
  by (simp add: dateTimeFromMatches_def zone_of_def adjust_hour_def adjust_era_def
      adjust_millis_def to_fields_def toField_def get_def isUndefined_def truthy_def)

lemma match_one:
  assumes "js_match inp re = r" and "\<not> dliteral un" and "groups un = None"
  shows "match inp re [un] =
     (case r of None \<Rightarrow> Inr (None, [])
      | Some ms \<Rightarrow>
          (case deser un (slice ms 1 2) of Inl err \<Rightarrow> Inl err
           | Inr v \<Rightarrow> Inr (Some ms, [(key_of (token un), v)])))"
  using assms
  by (auto simp: match_def group_count_def Let_def numeral_2_eq_2 split: option.splits sum.splits)

lemma explain_y:
  "explainFromTokens u loc inp [sym ''y''] =
     Inr (Explained \<lparr>input = inp, tokens = [sym ''y''],
        regex_used = \<lparr>source = ''^('' @ digits ''{1,6}'' @ '')$'',
          ast = Seq Bol (Seq (Grp 1 (Seq (Rep 1 (Some 6) True (Cls False digit_items)) Empty))
                  (Seq Eol Empty)),
          ngroups = 1, ignoreCase = True\<rparr>,
        rawMatches = (if 1 \<le> length inp \<and> length inp \<le> 6 \<and> list_all is_digit inp
                      then Some [Some inp, Some inp] else None),
        matches = (if 1 \<le> length inp \<and> length inp \<le> 6 \<and> list_all is_digit inp
                   then [(''y'', parseInt (Some inp))] else []),
        result = Some (if 1 \<le> length inp \<and> length inp \<le> 6 \<and> list_all is_digit inp
                   then [(''year'', parseInt (Some inp))] else []),
        zone = None\<rparr>)"
proof -
  let ?un = "descriptor.extend (intUnit (digits ''{1,6}'') id) \<lparr>token = sym ''y''\<rparr>"
  let ?re = "\<lparr>source = ''^('' @ digits ''{1,6}'' @ '')$'',
          ast = Seq Bol (Seq (Grp 1 (Seq (Rep 1 (Some 6) True (Cls False digit_items)) Empty))
                  (Seq Eol Empty)),
          ngroups = 1, ignoreCase = True\<rparr>"
  have re: "RegExp (''^('' @ regex ?un @ '')$'') True = Inr ?re"
    by (simp only: regex_extend regex_intUnit regexp_digit_group_6)
  have js: "js_match inp ?re =
      (if 1 \<le> length inp \<and> length inp \<le> 6 \<and> list_all is_digit inp
       then Some [Some inp, Some inp] else None)"
    by (rule js_match_digit_group) simp_all
  have "match inp ?re [?un] =
      Inr (if 1 \<le> length inp \<and> length inp \<le> 6 \<and> list_all is_digit inp
           then (Some [Some inp, Some inp], [(''y'', parseInt (Some inp))]) else (None, []))"
    by (subst match_one [OF js])
       (simp_all add: descriptor.defs intUnit_def key_of_def sym_def slice_def first_def
          nth_opt_def)
  then show ?thesis
    by (simp only: explain_single [OF unit_y re])
       (simp add: resolve_nothing resolve_year)
qed


lemma resolve_fraction:
  "dateTimeFromMatches u [(''u'', Str s)]
     = ([(''millisecond'', parseMillis u (Str s))], None,
        [(''u'', Str s), (''S'', parseMillis u (Str s))])"
  by (simp add: dateTimeFromMatches_def zone_of_def adjust_hour_def adjust_era_def
      adjust_millis_def to_fields_def toField_def get_def isUndefined_def truthy_def)

lemma explain_u:
  "explainFromTokens u loc inp [sym ''u''] =
     Inr (Explained \<lparr>input = inp, tokens = [sym ''u''],
        regex_used = \<lparr>source = ''^('' @ digits ''{1,9}'' @ '')$'',
          ast = Seq Bol (Seq (Grp 1 (Seq (Rep 1 (Some 9) True (Cls False digit_items)) Empty))
                  (Seq Eol Empty)),
          ngroups = 1, ignoreCase = True\<rparr>,
        rawMatches = (if 1 \<le> length inp \<and> length inp \<le> 9 \<and> list_all is_digit inp
                      then Some [Some inp, Some inp] else None),
        matches = (if 1 \<le> length inp \<and> length inp \<le> 9 \<and> list_all is_digit inp
                   then [(''u'', Str inp), (''S'', parseMillis u (Str inp))] else []),
        result = Some (if 1 \<le> length inp \<and> length inp \<le> 9 \<and> list_all is_digit inp
                   then [(''millisecond'', parseMillis u (Str inp))] else []),
        zone = None\<rparr>)"
proof -
  let ?un = "descriptor.extend (simple (digits ''{1,9}'')) \<lparr>token = sym ''u''\<rparr>"
  let ?re = "\<lparr>source = ''^('' @ digits ''{1,9}'' @ '')$'',
          ast = Seq Bol (Seq (Grp 1 (Seq (Rep 1 (Some 9) True (Cls False digit_items)) Empty))
                  (Seq Eol Empty)),
          ngroups = 1, ignoreCase = True\<rparr>"
  have re: "RegExp (''^('' @ regex ?un @ '')$'') True = Inr ?re"
    by (simp only: regex_extend regex_simple regexp_digit_group_9)
  have js: "js_match inp ?re =
      (if 1 \<le> length inp \<and> length inp \<le> 9 \<and> list_all is_digit inp
       then Some [Some inp, Some inp] else None)"
    by (rule js_match_digit_group) simp_all
  have "match inp ?re [?un] =
      Inr (if 1 \<le> length inp \<and> length inp \<le> 9 \<and> list_all is_digit inp
           then (Some [Some inp, Some inp], [(''u'', Str inp)]) else (None, []))"
    by (subst match_one [OF js])
       (simp_all add: descriptor.defs simple_def key_of_def sym_def slice_def first_def
          nth_opt_def)
  then show ?thesis
    by (simp only: explain_single [OF unit_u re])
       (simp add: resolve_nothing resolve_fraction)
qed

lemma explained_of_simps [simp]:
  "explained_of (Inr (Explained e)) = Some e"
  "explained_of (Inr (Invalid i t r)) = None"
  "explained_of (Inl err) = None"
  by (simp_all add: explained_of_def)

lemma regexp_empty:
  "RegExp ''^$'' True =
     Inr \<lparr>source = ''^$'', ast = Seq Bol (Seq Eol Empty), ngroups = 0, ignoreCase = True\<rparr>"
  by code_simp

section \<open>Lemmas about the offset patterns\<close>

lemma regexp_offset_colon:
  "RegExp (''^('' @ (''([+-]'' @ digits ''{1,2})(?::('' @ digits ''{2}))?'') @ '')$'') True =
     Inr \<lparr>source = ''^(([+-]'' @ digits ''{1,2})(?::('' @ digits ''{2}))?)$'',
          ast = offset_colon_ast, ngroups = 3, ignoreCase = True\<rparr>"
  by code_simp

lemma regexp_offset_bare:
  "RegExp (''^('' @ (''([+-]'' @ digits ''{1,2})('' @ digits ''{2})?'') @ '')$'') True =
     Inr \<lparr>source = ''^(([+-]'' @ digits ''{1,2})('' @ digits ''{2})?)$'',
          ast = offset_bare_ast, ngroups = 3, ignoreCase = True\<rparr>"
  by code_simp

lemma digit_canon: "is_digit a \<Longrightarrow> canon ic a = a"
  by (auto simp: canon_def toUpperChar_def is_digit_def in_range_def code_def)

lemma digit_not_colon: "is_digit a \<Longrightarrow> CHR '':'' \<noteq> a"
  by (auto simp: is_digit_def in_range_def code_def)

lemma sign_class:
  "in_class True False sign_items (CHR ''+'')"
  "in_class True False sign_items (CHR ''-'')"
  by (simp_all add: sign_items_def in_class_def variants_def in_range_def code_def
      toUpperChar_def toLowerChar_def)

lemma colon_facts:
  "\<not> is_digit (CHR '':'')" "canon True (CHR '':'') = CHR '':''"
  by (simp_all add: is_digit_def in_range_def code_def canon_def toUpperChar_def)

lemma one_or_two:
  assumes "length xs = 1 \<or> length xs = 2" and "list_all P xs"
  obtains a where "xs = [a]" "P a" | a b where "xs = [a, b]" "P a" "P b"
proof -
  from assms(1) consider "length xs = Suc 0" | "length xs = Suc (Suc 0)"
    by (auto simp: numeral_2_eq_2)
  then show thesis
  proof cases
    case 1
    then obtain a where "xs = [a]" by (auto simp: length_Suc_conv)
    with assms(2) that(1) show ?thesis by simp
  next
    case 2
    then obtain a b where "xs = [a, b]" by (auto simp: length_Suc_conv)
    with assms(2) that(2) show ?thesis by simp
  qed
qed

lemma exactly_two:
  assumes "length xs = 2" and "list_all P xs"
  obtains a b where "xs = [a, b]" "P a" "P b"
proof -
  from assms(1) obtain a b where "xs = [a, b]"
    by (auto simp: numeral_2_eq_2 length_Suc_conv)
  with assms(2) that show ?thesis by simp
qed

lemmas offset_eval =
  in_class_digit sign_class colon_facts digit_canon digit_not_colon clear_def dec_def
  star.simps eval_nat_numeral

lemma js_match_offset_colon:
  assumes re: "ast re = offset_colon_ast" "ngroups re = 3" "ignoreCase re"
    and sg: "sg = CHR ''+'' \<or> sg = CHR ''-''"
    and hh: "list_all is_digit hh" "length hh = 1 \<or> length hh = 2"
    and mi: "list_all is_digit mi" "length mi = 2"
  shows "js_match (sg # hh @ CHR '':'' # mi) re
           = Some [Some (sg # hh @ CHR '':'' # mi), Some (sg # hh @ CHR '':'' # mi),
                   Some (sg # hh), Some mi]"
    and "js_match (sg # hh) re = Some [Some (sg # hh), Some (sg # hh), Some (sg # hh), None]"
proof -
  note anchored = js_match_anchored [OF re(1) [unfolded offset_colon_ast_def]]
  from mi(2) mi(1) obtain c d where mi': "mi = [c, d]" "is_digit c" "is_digit d"
    by (rule exactly_two)
  from hh(2) hh(1) show "js_match (sg # hh @ CHR '':'' # mi) re
           = Some [Some (sg # hh @ CHR '':'' # mi), Some (sg # hh @ CHR '':'' # mi),
                   Some (sg # hh), Some mi]"
  proof (cases rule: one_or_two)
    case 1
    with sg mi' show ?thesis
      by (auto simp: anchored re offset_eval)
  next
    case 2
    with sg mi' show ?thesis
      by (auto simp: anchored re offset_eval)
  qed
  from hh(2) hh(1) show "js_match (sg # hh) re
      = Some [Some (sg # hh), Some (sg # hh), Some (sg # hh), None]"
  proof (cases rule: one_or_two)
    case 1
    with sg show ?thesis
      by (auto simp: anchored re offset_eval)
  next
    case 2
    with sg show ?thesis
      by (auto simp: anchored re offset_eval)
  qed
qed

lemma js_match_offset_bare:
  assumes re: "ast re = offset_bare_ast" "ngroups re = 3" "ignoreCase re"
    and sg: "sg = CHR ''+'' \<or> sg = CHR ''-''"
    and hh: "list_all is_digit hh" "length hh = 1 \<or> length hh = 2"
    and mi: "list_all is_digit mi" "length mi = 2"
  shows "js_match (sg # hh @ mi) re
           = Some [Some (sg # hh @ mi), Some (sg # hh @ mi), Some (sg # hh), Some mi]"
    and "js_match (sg # hh) re = Some [Some (sg # hh), Some (sg # hh), Some (sg # hh), None]"
proof -
  note anchored = js_match_anchored [OF re(1) [unfolded offset_bare_ast_def]]
  from mi(2) mi(1) obtain c d where mi': "mi = [c, d]" "is_digit c" "is_digit d"
    by (rule exactly_two)
  from hh(2) hh(1) show "js_match (sg # hh @ mi) re
           = Some [Some (sg # hh @ mi), Some (sg # hh @ mi), Some (sg # hh), Some mi]"
  proof (cases rule: one_or_two)
    case 1
    with sg mi' show ?thesis
      by (auto simp: anchored re offset_eval)
  next
    case 2
    with sg mi' show ?thesis
      by (auto simp: anchored re offset_eval)
  qed
  from hh(2) hh(1) show "js_match (sg # hh) re
      = Some [Some (sg # hh), Some (sg # hh), Some (sg # hh), None]"
  proof (cases rule: one_or_two)
    case 1
    with sg show ?thesis
      by (auto simp: anchored re offset_eval)
  next
    case 2
    with sg show ?thesis
      by (auto simp: anchored re offset_eval)
  qed
qed


lemma regex_offset [simp]: "regex (offset u re gs) = re"
  by (simp add: offset_def)

lemma match_one_value:
  assumes "js_match inp re = Some ms" and "\<not> dliteral un"
    and "deser un (slice ms 1 (1 + group_count un)) = Inr v"
  shows "match inp re [un] = Inr (Some ms, [(key_of (token un), v)])"
  using assms by (simp add: match_def Let_def)

lemma resolve_offset:
  "snd (snd (dateTimeFromMatches u [(''Z'', v)])) = [(''Z'', v)]"
  by (simp add: dateTimeFromMatches_def Let_def adjust_hour_def adjust_era_def
      adjust_millis_def get_def truthy_def)

lemma explain_offset:
  assumes v: "unitate u (sym v) loc = Inr (Some (offset u pat 2))" "take 1 v = ''Z''"
    and re: "RegExp (''^('' @ pat @ '')$'') True = Inr re"
    and js: "js_match inp re = Some [w0, w1, h, mi]"
  shows "map_option rawMatches (explained_of (explainFromTokens u loc inp [sym v]))
           = Some (Some [w0, w1, h, mi])"
    and "map_option matches (explained_of (explainFromTokens u loc inp [sym v]))
           = Some [(''Z'', signedOffset u h mi)]"
proof -
  let ?un = "descriptor.extend (offset u pat 2) \<lparr>token = sym v\<rparr>"
  have un: "unitForToken u (sym v) loc = Inr (Descriptor ?un)"
    by (simp add: unitForToken_def v)
  have re': "RegExp (''^('' @ regex ?un @ '')$'') True = Inr re"
    by (simp only: regex_extend regex_offset re)
  have key: "key_of (token ?un) = ''Z''"
    using v(2) by (cases v) (simp_all add: key_of_def sym_def descriptor.defs)
  have "match inp re [?un] = Inr (Some [w0, w1, h, mi], [(key_of (token ?un), signedOffset u h mi)])"
    by (rule match_one_value [OF js])
       (simp_all add: descriptor.defs offset_def group_count_def slice_def nth_opt_def)
  then have m: "match inp re [?un] = Inr (Some [w0, w1, h, mi], [(''Z'', signedOffset u h mi)])"
    by (simp only: key)
  show "map_option rawMatches (explained_of (explainFromTokens u loc inp [sym v]))
           = Some (Some [w0, w1, h, mi])"
    by (simp only: explain_single [OF un re'] m) simp
  show "map_option matches (explained_of (explainFromTokens u loc inp [sym v]))
           = Some [(''Z'', signedOffset u h mi)]"
    by (simp only: explain_single [OF un re'] m) (simp add: resolve_offset)
qed

lemma unitate_offset:
  "unitate u (sym ''Z'') loc
     = Inr (Some (offset u (''([+-]'' @ digits ''{1,2})(?::('' @ digits ''{2}))?'') 2))"
  "unitate u (sym ''ZZ'') loc
     = Inr (Some (offset u (''([+-]'' @ digits ''{1,2})(?::('' @ digits ''{2}))?'') 2))"
  "unitate u (sym ''ZZZ'') loc
     = Inr (Some (offset u (''([+-]'' @ digits ''{1,2})('' @ digits ''{2})?'') 2))"
  by (simp_all add: unitate_def sym_def)

section \<open>Lemmas about failed matches, invalid reasons and periods\<close>

lemma explain_no_match:
  assumes "compile_loop u loc toks [] = Inr (Inr units)"
    and "pattern_of units = Inr re"
    and "js_match inp re = None"
  shows "explainFromTokens u loc inp toks =
     Inr (Explained \<lparr>input = inp, tokens = toks, regex_used = re, rawMatches = None,
            matches = [], result = Some [], zone = None\<rparr>)"
  using assms
  by (simp add: explainFromTokens_def pattern_of_def buildRegex_def match_def truthy_object_def
      resolve_nothing)

lemma compile_loop_invalid:
  assumes "\<forall>t' \<in> set pre. \<exists>un. unitForToken u t' loc = Inr (Descriptor un)"
    and "unitate u t loc = Inr None"
  shows "compile_loop u loc (pre @ t # post) units = Inr (Inl MISSING_FTP)"
  using assms(1)
proof (induction pre arbitrary: units)
  case Nil
  show ?case
    by (simp add: unitForToken_def assms(2))
next
  case (Cons p pre)
  then obtain un where "unitForToken u p loc = Inr (Descriptor un)"
    by auto
  with Cons show ?case
    by simp
qed

lemma explain_invalid_reason:
  assumes "\<forall>t' \<in> set pre. \<exists>un. unitForToken u t' loc = Inr (Descriptor un)"
    and "unitate u t loc = Inr None"
  shows "explainFromTokens u loc inp (pre @ t # post)
           = Inr (Invalid inp (pre @ t # post) MISSING_FTP)"
  by (simp add: explainFromTokens_def compile_loop_invalid [OF assms])

lemma single_period_strip:
  "count_list s (CHR ''.'') \<le> 1 \<Longrightarrow> stripInsensitivities s = strip_periods_spec s"
proof -
  have "count_list s (CHR ''.'') \<le> 1 \<Longrightarrow>
        replace_first_dot [] s = filter (\<lambda>c. c \<noteq> CHR ''.'') s"
  proof (induction s)
    case Nil
    then show ?case by simp
  next
    case (Cons c s)
    show ?case
    proof (cases "c = CHR ''.''")
      case True
      with Cons.prems have "count_list s (CHR ''.'') = 0" by simp
      then have "CHR ''.'' \<notin> set s" by (simp add: count_list_0_iff)
      then have "filter (\<lambda>c. c \<noteq> CHR ''.'') s = s"
        by (intro filter_True) auto
      with True show ?thesis by simp
    next
      case False
      with Cons show ?thesis by simp
    qed
  qed
  then show "count_list s (CHR ''.'') \<le> 1 \<Longrightarrow> stripInsensitivities s = strip_periods_spec s"
    by (simp add: stripInsensitivities_def strip_periods_spec_def)
qed

section \<open>The claims\<close>

text \<open>
  Claim C1: when the compiled pattern does not match the input, the matcher returns null
  captures and an empty raw field map, \<open>explainFromTokens\<close> returns null resolved
  fields and a null zone, and nothing is raised. On the format \<open>y\<close> and the input \<open>x\<close>
  the captures are null, the raw field map is empty, the zone is null and nothing is
  raised, but the resolved fields are an empty object, not null: the raw field map \<open>{}\<close>
  is truthy, so the branch \<open>[null, null]\<close> of \<open>explainFromTokens\<close> is never taken.
\<close>

theorem no_match_result_is_empty_object:
  "map_option (\<lambda>e. (rawMatches e, matches e, result e, zone e))
     (explained_of (explainFromTokens u loc ''x'' [sym ''y'']))
     = Some (None, [], Some [], None)"
  by code_simp

text \<open>
  Claim C2: the sub-pattern of a literal token matches exactly the literal's text, with
  the characters escaped as the pattern syntax needs, so that matching the exact literal
  text succeeds. \<open>literal\<close> passes the text to \<open>RegExp\<close> as it is: the literal \<open>.\<close> of
  the format \<open>d'.'M\<close> matches the \<open>x\<close> of \<open>1x2\<close>; the literal \<open>a+\<close> does not match the
  text \<open>a+\<close>, and matches \<open>aa\<close>; the literal \<open>(\<close> raises a SyntaxError.
\<close>

theorem literal_text_is_pattern_syntax:
  "map_option (\<lambda>e. (rawMatches e, result e))
     (explained_of (explainFromTokens u loc ''1x2'' [sym ''d'', lit ''.'', sym ''M'']))
     = Some (Some [Some ''1x2'', Some ''1'', Some ''x'', Some ''2''],
             Some [(''day'', Num 1), (''month'', Num 2)])
   \<and> map_option rawMatches (explained_of (explainFromTokens u loc ''a+'' [lit ''a+'']))
     = Some None
   \<and> map_option rawMatches (explained_of (explainFromTokens u loc ''aa'' [lit ''a+'']))
     = Some (Some [Some ''aa'', Some ''aa''])
   \<and> map_sum id (map_option regex) (literal (lit ''('')) = Inl SyntaxError
   \<and> explainFromTokens u loc ''('' [lit ''(''] = Inl SyntaxError"
  by code_simp

text \<open>
  Claim C3: before comparing, the periods are stripped from the matched text and from
  each candidate and both are lower-cased, and the deserializer returns the position of
  the first candidate with the same normal form, plus the origin. \<open>stripInsensitivities\<close>
  replaces with a pattern that has no \<open>g\<close> flag, so only the first period goes: with the
  candidates \<open>a.m.\<close> and \<open>p.m.\<close> the input \<open>am.\<close> matches the pattern and deserializes
  to -1, although its normal form with every period stripped is that of the candidate at
  position 0; and the input \<open>am\<close> does not match, since \<open>fixListRegex\<close> makes only the
  first period optional.
\<close>

theorem first_period_only:
  "map_option (\<lambda>e. (rawMatches e, matches e))
     (explained_of (explainFromTokens u dotted_meridiems ''am.'' [sym ''a'']))
     = Some (Some [Some ''am.'', Some ''am.''], [(''a'', Num (- 1))])
   \<and> stripInsensitivities ''am.'' = ''am''
   \<and> stripInsensitivities ''a.m.'' = ''am.''
   \<and> strip_periods_spec ''am.'' = strip_periods_spec ''a.m.''
   \<and> findIndex (\<lambda>i. strip_periods_spec ''am.'' = strip_periods_spec i) [''a.m.'', ''p.m.''] + 0 = 0
   \<and> map_option rawMatches
       (explained_of (explainFromTokens u dotted_meridiems ''am'' [sym ''a''])) = Some None"
  by code_simp

text \<open>
  Claim C4, as stated: the descriptor of an offset token (\<open>Z\<close>, \<open>ZZ\<close>, \<open>ZZZ\<close>) declares
  exactly one extra capture group beyond the primary. The descriptor of \<open>ZZ\<close> declares
  \<open>groups = 2\<close>: its sub-pattern has two capture groups of its own, the matcher
  consumes three captures for it (the wrapping group and these two), and the pattern of
  the format \<open>ZZ\<close> has three groups.
\<close>

theorem offset_descriptor_counterexample:
  "map groups (units_of spec_util english [sym ''ZZ'']) = [Some 2]
   \<and> map groups (units_of spec_util english [sym ''ZZ'']) \<noteq> [Some 1]
   \<and> map group_count (units_of spec_util english [sym ''ZZ'']) = [3]
   \<and> map_option rawMatches (explained_of
         (explainFromTokens spec_util english ''+05:30'' [sym ''ZZ'']))
       = Some (Some [Some ''+05:30'', Some ''+05:30'', Some ''+05'', Some ''30''])"
  by code_simp

text \<open>
  Claim C4, amended. For every offset token the sub-pattern captures a sign-prefixed hour
  of one or two digits and an optional minute of two digits (after a colon for \<open>Z\<close> and
  \<open>ZZ\<close>, bare for \<open>ZZZ\<close>); the descriptor declares two extra capture groups beyond
  the primary, the hour and the minute; and its deserializer hands these two captures
  to the external decoder \<open>signedOffset\<close>, whose result is stored under the key \<open>Z\<close>.
  With the decoder of the specification, \<open>+05:30\<close> resolves to 330 minutes and \<open>-0800\<close>
  to -480.
\<close>

theorem offset_descriptor:
  assumes "sg = CHR ''+'' \<or> sg = CHR ''-''"
    and "list_all is_digit hh" and "length hh = 1 \<or> length hh = 2"
    and "list_all is_digit mi" and "length mi = 2"
    and "v = ''Z'' \<or> v = ''ZZ''"
  shows
    "unitate u (sym v) loc
       = Inr (Some (offset u (''([+-]'' @ digits ''{1,2})(?::('' @ digits ''{2}))?'') 2))
     \<and> unitate u (sym ''ZZZ'') loc
       = Inr (Some (offset u (''([+-]'' @ digits ''{1,2})('' @ digits ''{2})?'') 2))
     \<and> groups (offset u pat 2) = Some 2
     \<and> deser (offset u pat 2) [w, h, mt] = Inr (signedOffset u h mt)
     \<and> map_option rawMatches (explained_of
           (explainFromTokens u loc (sg # hh @ CHR '':'' # mi) [sym v]))
         = Some (Some [Some (sg # hh @ CHR '':'' # mi), Some (sg # hh @ CHR '':'' # mi),
                       Some (sg # hh), Some mi])
     \<and> map_option matches (explained_of
           (explainFromTokens u loc (sg # hh @ CHR '':'' # mi) [sym v]))
         = Some [(''Z'', signedOffset u (Some (sg # hh)) (Some mi))]
     \<and> map_option matches (explained_of (explainFromTokens u loc (sg # hh) [sym v]))
         = Some [(''Z'', signedOffset u (Some (sg # hh)) None)]
     \<and> map_option rawMatches (explained_of
           (explainFromTokens u loc (sg # hh @ mi) [sym ''ZZZ'']))
         = Some (Some [Some (sg # hh @ mi), Some (sg # hh @ mi), Some (sg # hh), Some mi])
     \<and> map_option matches (explained_of
           (explainFromTokens u loc (sg # hh @ mi) [sym ''ZZZ'']))
         = Some [(''Z'', signedOffset u (Some (sg # hh)) (Some mi))]
     \<and> map_option matches (explained_of (explainFromTokens u loc (sg # hh) [sym ''ZZZ'']))
         = Some [(''Z'', signedOffset u (Some (sg # hh)) None)]"
proof -
  let ?colon = "\<lparr>source = ''^(([+-]'' @ digits ''{1,2})(?::('' @ digits ''{2}))?)$'',
          ast = offset_colon_ast, ngroups = 3, ignoreCase = True\<rparr>"
  let ?bare = "\<lparr>source = ''^(([+-]'' @ digits ''{1,2})('' @ digits ''{2})?)$'',
          ast = offset_bare_ast, ngroups = 3, ignoreCase = True\<rparr>"
  have uv: "unitate u (sym v) loc
       = Inr (Some (offset u (''([+-]'' @ digits ''{1,2})(?::('' @ digits ''{2}))?'') 2))"
    using assms(6) unitate_offset(1,2) by blast
  have kv: "take 1 v = ''Z''"
    using assms(6) by auto
  have kz: "take 1 ''ZZZ'' = ''Z''"
    by simp
  have c: "ast ?colon = offset_colon_ast" "ngroups ?colon = 3" "ignoreCase ?colon"
    by simp_all
  have b: "ast ?bare = offset_bare_ast" "ngroups ?bare = 3" "ignoreCase ?bare"
    by simp_all
  note colon = js_match_offset_colon [OF c assms(1-5)]
  note bare = js_match_offset_bare [OF b assms(1-5)]
  have "groups (offset u pat 2) = Some 2"
    "deser (offset u pat 2) [w, h, mt] = Inr (signedOffset u h mt)"
    by (simp_all add: offset_def nth_opt_def)
  then show ?thesis
    using uv unitate_offset(3) [of u loc]
      explain_offset [OF uv kv regexp_offset_colon colon(1)]
      explain_offset [OF uv kv regexp_offset_colon colon(2)]
      explain_offset [OF unitate_offset(3) kz regexp_offset_bare bare(1)]
      explain_offset [OF unitate_offset(3) kz regexp_offset_bare bare(2)]
    by simp
qed

theorem offset_descriptor_witness:
  "map_option matches (explained_of (explainFromTokens spec_util english ''+05:30'' [sym ''ZZ'']))
     = Some [(''Z'', Num 330)]
   \<and> map_option matches (explained_of (explainFromTokens spec_util english ''-0800'' [sym ''ZZZ'']))
     = Some [(''Z'', Num (- 480))]
   \<and> map_option zone (explained_of (explainFromTokens spec_util english ''+05:30'' [sym ''ZZ'']))
     = Some (Some (FixedOffsetZone (Num 330)))"
proof -
  have digits: "list_all is_digit ''05''" "list_all is_digit ''30''"
    "list_all is_digit ''08''" "list_all is_digit ''00''"
    by (simp_all add: is_digit_def in_range_def code_def)
  have dec: "signedOffset spec_util (Some ''+05'') (Some ''30'') = Num 330"
    "signedOffset spec_util (Some ''-08'') (Some ''00'') = Num (- 480)"
    by code_simp+
  have z: "map_option zone (explained_of (explainFromTokens spec_util english ''+05:30'' [sym ''ZZ'']))
     = Some (Some (FixedOffsetZone (Num 330)))"
    by code_simp
  from offset_descriptor [of "CHR ''+''" "''05''" "''30''" "''ZZ''" spec_util english, OF _ digits(1) _ digits(2)]
    offset_descriptor [of "CHR ''-''" "''08''" "''00''" "''ZZ''" spec_util english, OF _ digits(3) _ digits(4)]
  show ?thesis
    by (simp add: dec z)
qed

text \<open>
  Claim C5: for every format with a token whose localized names the locale cannot supply,
  and every input, \<open>explainFromTokens\<close> stops at the first such token and returns only
  the input, the tokens and the invalid reason. It does so when the tokens before it
  compile (lemma \<open>explain_invalid_reason\<close>); on the format \<open>(MMM\<close> the token \<open>(\<close>, taken
  as a literal, is handed to \<open>RegExp\<close> unescaped and raises a SyntaxError before \<open>MMM\<close>
  is reached.
\<close>

theorem invalid_reason_after_bad_literal:
  "explainFromTokens u no_names inp [sym ''('', sym ''MMM''] = Inl SyntaxError
   \<and> explainFromTokens u no_names inp [sym ''MMM'', sym ''(''] = Inr (Invalid inp [sym ''MMM'', sym ''(''] MISSING_FTP)"
  by code_simp

text \<open>
  Claim C6, as stated: for every raw field map holding an hour \<open>h\<close> and a meridiem flag,
  the resolved hour is \<open>h + 12\<close> when \<open>h < 12\<close> and the flag is PM (index 1), 0 when
  \<open>h = 12\<close> and the flag is AM (index 0), and \<open>h\<close> otherwise. The format \<open>h a H\<close> on
  the input \<open>5 PM 3\<close> gives a raw field map with \<open>h = 5\<close> and the flag PM whose resolved
  hour is 3: the resolver writes 17 under \<open>h\<close>, and the later 24-hour entry \<open>H\<close> is renamed
  to the same field and wins.
\<close>

theorem hour_adjustment_counterexample:
  "match ''5 PM 3''
     (projr (pattern_of (units_of spec_util english
        [sym ''h'', sym '' '', sym ''a'', sym '' '', sym ''H''])))
     (units_of spec_util english [sym ''h'', sym '' '', sym ''a'', sym '' '', sym ''H''])
     = Inr (Some [Some ''5 PM 3'', Some ''5'', Some '' '', Some ''PM'', Some '' '', Some ''3''],
            [(''h'', Num 5), (''a'', Num 1), (''H'', Num 3)])
   \<and> get [(''h'', Num 5), (''a'', Num 1), (''H'', Num 3)] ''h'' = Some (Num 5)
   \<and> get [(''h'', Num 5), (''a'', Num 1), (''H'', Num 3)] ''a'' = Some (Num 1)
   \<and> get (fst (dateTimeFromMatches spec_util [(''h'', Num 5), (''a'', Num 1), (''H'', Num 3)]))
         ''hour'' \<noteq> Some (Num (5 + 12))
   \<and> dateTimeFromMatches spec_util [(''h'', Num 5), (''a'', Num 1), (''H'', Num 3)]
       = ([(''hour'', Num 3)], None, [(''h'', Num 17), (''a'', Num 1), (''H'', Num 3)])
   \<and> map_option matches (explained_of (explainFromTokens spec_util english ''5 PM 3''
         [sym ''h'', sym '' '', sym ''a'', sym '' '', sym ''H'']))
       = Some [(''h'', Num 17), (''a'', Num 1), (''H'', Num 3)]
   \<and> map_option result (explained_of (explainFromTokens spec_util english ''5 PM 3''
         [sym ''h'', sym '' '', sym ''a'', sym '' '', sym ''H'']))
       = Some (Some [(''hour'', Num 3)])"
  by code_simp

text \<open>
  Claim C6, amended. For every raw field map holding an hour \<open>h\<close> and a meridiem flag,
  and no 24-hour entry \<open>H\<close> after the entry \<open>h\<close>: the resolved hour is \<open>h + 12\<close> when
  \<open>h < 12\<close> and the flag is PM (index 1), 0 when \<open>h = 12\<close> and the flag is AM (index 0),
  and \<open>h\<close> for every other combination.
\<close>

theorem hour_adjustment:
  assumes "distinct (map fst ob)"
    and "get ob ''h'' = Some (Num h)"
    and "get ob ''a'' = Some (Num a)"
    and "''H'' \<notin> fst ` set (dropWhile (\<lambda>kv. fst kv \<noteq> ''h'') ob)"
  shows "get (fst (dateTimeFromMatches u ob)) ''hour''
           = Some (Num (if h < 12 \<and> a = 1 then h + 12 else if h = 12 \<and> a = 0 then 0 else h))"
proof -
  have "hour_entry ob (Num h)"
    using assms(1,2,4) by (rule hour_entryI)
  then have "hour_entry (adjust_millis u (adjust_era (adjust_hour ob)))
           (Num (if h < 12 \<and> a = 1 then h + 12 else if h = 12 \<and> a = 0 then 0 else h))"
    using assms(3)
    by (intro hour_entry_adjust_millis hour_entry_adjust_era hour_entry_adjust_hour)
  then show ?thesis
    by (simp add: dateTimeFromMatches_def Let_def hour_entry_to_fields)
qed

theorem hour_adjustment_witness:
  "get (fst (dateTimeFromMatches spec_util [(''h'', Num 5), (''a'', Num 1)])) ''hour'' = Some (Num 17)
   \<and> get (fst (dateTimeFromMatches spec_util [(''h'', Num 12), (''a'', Num 0)])) ''hour'' = Some (Num 0)
   \<and> get (fst (dateTimeFromMatches spec_util [(''h'', Num 9), (''a'', Num 0)])) ''hour'' = Some (Num 9)
   \<and> get (fst (dateTimeFromMatches spec_util [(''H'', Num 3), (''h'', Num 5), (''a'', Num 1)])) ''hour''
       = Some (Num 17)"
  using hour_adjustment [of "[(''h'', Num 5), (''a'', Num 1)]" 5 1 spec_util]
    hour_adjustment [of "[(''h'', Num 12), (''a'', Num 0)]" 12 0 spec_util]
    hour_adjustment [of "[(''h'', Num 9), (''a'', Num 0)]" 9 0 spec_util]
    hour_adjustment [of "[(''H'', Num 3), (''h'', Num 5), (''a'', Num 1)]" 5 1 spec_util]
  by (simp add: get_def)

text \<open>
  Claim C7. For every raw field map that holds an era flag and a year: when the era is
  BCE (index 0) the resolved year is the negation of the captured year, and otherwise it
  is the captured year.
\<close>

theorem era_adjustment:
  assumes "distinct (map fst ob)"
    and "get ob ''G'' = Some (Num g)"
    and "get ob ''y'' = Some (Num y)"
  shows "get (fst (dateTimeFromMatches u ob)) ''year'' = Some (Num (if g = 0 then - y else y))"
proof -
  let ?ob3 = "adjust_millis u (adjust_era (adjust_hour ob))"
  have d: "distinct (map fst ?ob3)"
    using assms(1) by (simp add: distinct_adjust_hour distinct_adjust_era distinct_adjust_millis)
  have "get ?ob3 ''y'' = Some (Num (if g = 0 then - y else y))"
    using assms(2,3)
    by (simp add: get_adjust_millis adjust_era_def get_adjust_hour get_update truthy_def negate_def)
  with d show ?thesis
    by (simp add: dateTimeFromMatches_def Let_def get_year)
qed


theorem era_adjustment_witness:
  "distinct (map fst [(''y'', Num 44), (''G'', Num 0)])
   \<and> get [(''y'', Num 44), (''G'', Num 0)] ''G'' = Some (Num 0)
   \<and> get [(''y'', Num 44), (''G'', Num 0)] ''y'' = Some (Num 44)
   \<and> get (fst (dateTimeFromMatches spec_util [(''y'', Num 44), (''G'', Num 0)])) ''year''
       = Some (Num (- 44))
   \<and> get (fst (dateTimeFromMatches spec_util [(''y'', Num 44), (''G'', Num 1)])) ''year''
       = Some (Num 44)"
  using era_adjustment [of "[(''y'', Num 44), (''G'', Num 0)]" 0 44 spec_util]
    era_adjustment [of "[(''y'', Num 44), (''G'', Num 1)]" 1 44 spec_util]
  by (simp add: get_def)

text \<open>
  Claim C8. For every descriptor list and every input on which the assembled pattern
  matches (and \<open>match\<close> returns), the raw field map has at most one entry per key; its
  keys are exactly the keys of the non-literal descriptors, the key of a descriptor being
  the first character of its token's code; the value under the key of a non-literal
  descriptor that no later non-literal descriptor shares the key with is what that
  descriptor deserializes from its own captures, so a later descriptor overwrites an
  earlier one; literal descriptors contribute no entry.
\<close>

theorem raw_field_map_last_wins:
  assumes "match inp re handlers = Inr (Some ms, all)"
  shows "distinct (map fst all)
    \<and> fst ` set all = {key_of (token h) |h. h \<in> set handlers \<and> \<not> dliteral h}
    \<and> (\<forall>pre h post. handlers = pre @ h # post \<and> \<not> dliteral h
          \<and> (\<forall>h' \<in> set post. \<not> dliteral h' \<longrightarrow> key_of (token h') \<noteq> key_of (token h))
        \<longrightarrow> (\<exists>v. deser h (slice ms (cursor pre) (cursor pre + group_count h)) = Inr v
                 \<and> get all (key_of (token h)) = Some v))
    \<and> (\<forall>h \<in> set handlers. val (token h) \<noteq> [] \<longrightarrow> key_of (token h) = [hd (val (token h))])"
proof -
  from assms have loop: "match_loop handlers 1 ms [] = Inr all"
    by (auto simp: match_def split: option.splits sum.splits)
  have "distinct (map fst all)"
    using match_loop_distinct [OF loop] by simp
  moreover have "fst ` set all = {key_of (token h) |h. h \<in> set handlers \<and> \<not> dliteral h}"
    using match_loop_keys [OF loop] by simp
  moreover have "\<exists>v. deser h (slice ms (cursor pre) (cursor pre + group_count h)) = Inr v
                 \<and> get all (key_of (token h)) = Some v"
    if "handlers = pre @ h # post" "\<not> dliteral h"
      "\<forall>h' \<in> set post. \<not> dliteral h' \<longrightarrow> key_of (token h') \<noteq> key_of (token h)"
    for pre h post
    using match_loop_last_wins [of pre h post 1 ms "[]" all] loop that
    by (simp add: cursor_def)
  moreover have "key_of (token h) = [hd (val (token h))]" if "val (token h) \<noteq> []" for h
    using that by (cases "val (token h)") (simp_all add: key_of_def)
  ultimately show ?thesis by blast
qed


theorem raw_field_map_last_wins_witness:
  "match ''1 02'' (projr (pattern_of (units_of spec_util english [sym ''M'', sym '' '', sym ''MM''])))
     (units_of spec_util english [sym ''M'', sym '' '', sym ''MM''])
     = Inr (Some [Some ''1 02'', Some ''1'', Some '' '', Some ''02''], [(''M'', Num 2)])
   \<and> distinct (map fst [(''M'', Num 2)])
   \<and> fst ` set [(''M'', Num 2)]
       = {key_of (token h) |h. h \<in> set (units_of spec_util english [sym ''M'', sym '' '', sym ''MM''])
            \<and> \<not> dliteral h}"
proof -
  have h: "match ''1 02''
      (projr (pattern_of (units_of spec_util english [sym ''M'', sym '' '', sym ''MM''])))
      (units_of spec_util english [sym ''M'', sym '' '', sym ''MM''])
      = Inr (Some [Some ''1 02'', Some ''1'', Some '' '', Some ''02''], [(''M'', Num 2)])"
    by code_simp
  from raw_field_map_last_wins [OF h] h show ?thesis
    by blast
qed

text \<open>
  Claim C9. For every locale and input, when the token list is empty the assembled
  pattern is \<open>^$\<close>, the match succeeds exactly when the input is the empty string, and
  the parse then yields an empty resolved field set and a null zone.
\<close>

theorem empty_token_list:
  "buildRegex [] = (''^$'', [])
   \<and> explainFromTokens u loc inp [] =
       Inr (Explained \<lparr>input = inp, tokens = [],
         regex_used = \<lparr>source = ''^$'', ast = Seq Bol (Seq Eol Empty), ngroups = 0,
                        ignoreCase = True\<rparr>,
         rawMatches = (if inp = [] then Some [Some []] else None),
         matches = [], result = Some [], zone = None\<rparr>)"
proof -
  let ?re = "\<lparr>source = ''^$'', ast = Seq Bol (Seq Eol Empty), ngroups = 0, ignoreCase = True\<rparr>"
  have b: "buildRegex [] = (''^$'', [])"
    by (simp add: buildRegex_def)
  have "js_match inp ?re = (if inp = [] then Some [Some []] else None)"
    by (subst js_match_anchored [of ?re "Seq Eol Empty"]) simp_all
  then have "match inp ?re [] = Inr (if inp = [] then Some [Some []] else None, [])"
    by (simp add: match_def)
  then show ?thesis
    by (simp add: b explainFromTokens_def regexp_empty truthy_object_def resolve_nothing)
qed

theorem empty_token_list_witness:
  "map_option (\<lambda>e. (source (regex_used e), rawMatches e, result e, zone e))
     (explained_of (explainFromTokens spec_util english [] []))
     = Some (''^$'', Some [Some []], Some [], None)
   \<and> map_option rawMatches (explained_of (explainFromTokens spec_util english ''x'' []))
     = Some None"
  using empty_token_list [of spec_util english "[]"] empty_token_list [of spec_util english "''x''"]
  by simp

text \<open>
  Claim C10. The token \<open>y\<close> compiles to the sub-pattern \<open>\d{1,6}\<close>, and a format of that
  token alone matches exactly the digit runs of length 1 to 6; the token \<open>u\<close> compiles to
  \<open>\d{1,9}\<close>, a format of that token alone matches exactly the digit runs of length 1 to
  9, and its deserializer returns the captured text as it is: the raw field map holds the
  text under \<open>u\<close>, next to the milliseconds that the resolver writes under \<open>S\<close>.
\<close>

theorem year_and_fraction_widths:
  "unitate u (sym ''y'') loc = Inr (Some (intUnit (digits ''{1,6}'') id))
   \<and> map_option rawMatches (explained_of (explainFromTokens u loc inp [sym ''y'']))
       = Some (if 1 \<le> length inp \<and> length inp \<le> 6 \<and> list_all is_digit inp
               then Some [Some inp, Some inp] else None)
   \<and> unitate u (sym ''u'') loc = Inr (Some (simple (digits ''{1,9}'')))
   \<and> map_option rawMatches (explained_of (explainFromTokens u loc inp [sym ''u'']))
       = Some (if 1 \<le> length inp \<and> length inp \<le> 9 \<and> list_all is_digit inp
               then Some [Some inp, Some inp] else None)
   \<and> map_option matches (explained_of (explainFromTokens u loc inp [sym ''u'']))
       = Some (if 1 \<le> length inp \<and> length inp \<le> 9 \<and> list_all is_digit inp
               then [(''u'', Str inp), (''S'', parseMillis u (Str inp))] else [])
   \<and> deser (simple (digits ''{1,9}'')) [Some s] = Inr (Str s)"
proof -
  have "unitate u (sym ''y'') loc = Inr (Some (intUnit (digits ''{1,6}'') id))"
    "unitate u (sym ''u'') loc = Inr (Some (simple (digits ''{1,9}'')))"
    by (simp_all add: unitate_def sym_def)
  moreover have "deser (simple (digits ''{1,9}'')) [Some s] = Inr (Str s)"
    by (simp add: simple_def first_def nth_opt_def)
  ultimately show ?thesis
    by (simp add: explain_y explain_u)
qed

theorem year_and_fraction_widths_witness:
  "map_option rawMatches (explained_of (explainFromTokens spec_util english ''123456'' [sym ''y'']))
     = Some (Some [Some ''123456'', Some ''123456''])
   \<and> map_option rawMatches (explained_of (explainFromTokens spec_util english ''1234567'' [sym ''y'']))
     = Some None
   \<and> map_option matches (explained_of (explainFromTokens spec_util english ''123456789'' [sym ''u'']))
     = Some [(''u'', Str ''123456789''), (''S'', Num 123)]
   \<and> map_option rawMatches (explained_of (explainFromTokens spec_util english ''1234567890'' [sym ''u'']))
     = Some None"
proof -
  have millis: "parseMillis spec_util (Str ''123456789'') = Num 123"
    by code_simp
  from year_and_fraction_widths [of spec_util english "''123456''"]
    year_and_fraction_widths [of spec_util english "''1234567''"]
    year_and_fraction_widths [of spec_util english "''123456789''"]
    year_and_fraction_widths [of spec_util english "''1234567890''"]
  show ?thesis
    by (simp add: is_digit_def in_range_def code_def millis)
qed

end
